theory Spec2Isabelle
  imports Main "HOL-Library.Word"
begin

unbundle bit_operations_syntax

section \<open>Errors, bitmaps and protocol types\<close>

text \<open>
  A Go \<open>error\<close> value returned to the caller is \<open>Err\<close>; a runtime panic (index out of
  range, failed type assertion, \<open>MustParse\<close>/\<open>MustUnmarshal\<close> on bad input) is \<open>Panic\<close>;
  \<open>log.Fatalf\<close>, which ends the process, is \<open>Fatal\<close>.
\<close>

datatype error = Err string | Panic string | Fatal string

text \<open>
  A crowd is a roaring bitmap: a finite set of 32-bit user ids. \<open>GetCardinality\<close> returns a
  \<open>uint64\<close>; a set of 32-bit ids has at most \<open>2 ^ 32\<close> members, so the count never wraps and
  is kept as a natural number.
\<close>

type_synonym bitmap = "32 word set"

definition GetCardinality :: "bitmap \<Rightarrow> nat" where
  "GetCardinality bm = card bm"

text \<open>
  Modelled from the spec: \<open>bbutil.BMAndnot\<close> and \<open>bbutil.BMOr\<close> (package \<open>pkg/util\<close>) are
  the bitmap utilities "AND-NOT" and "union"; each returns a fresh bitmap and leaves its
  arguments alone.
\<close>

definition BMAndnot :: "bitmap \<Rightarrow> bitmap \<Rightarrow> bitmap" where
  "BMAndnot a b = a - b"

definition BMOr :: "bitmap \<Rightarrow> bitmap \<Rightarrow> bitmap" where
  "BMOr a b = a \<union> b"

text \<open>
  Modelled from the spec: the messages of the protocol package (\<open>metapb\<close>). A step has a
  name, an execution whose type is one of Timer, Direct and Conditional, and a TTL; the
  state of a worker shard carries the ids, the index of the shard, the stop time and one
  entry per step. Only the fields that the engine and the transaction read are kept.
\<close>

datatype executionType = Timer | Direct | Conditional

record execution =
  Type :: executionType

record step =
  Name :: string
  Execution :: execution
  TTL :: "32 word"

record stepState =
  Step :: step

record workflowInstanceWorkerState =
  TenantID :: "64 word"
  WorkflowID :: "64 word"
  InstanceID :: "64 word"
  Index :: "32 word"
  StopAt :: "64 word"
  States :: "stepState list"

record userEvent =
  evTenantID :: "64 word"
  evWorkflowID :: "64 word"
  evInstanceID :: "64 word"
  UserID :: "32 word"

section \<open>The transaction of a state worker\<close>

text \<open>
  \<open>who\<close>, \<open>changedCtx\<close> and \<open>item\<close> are declared with the worker; their fields are
  the ones the transaction builds and reads (\<open>who{event.UserID, nil}\<close>,
  \<open>changedCtx{from, to, ctx.who, 0}\<close>, \<open>item.value\<close>, \<open>item.cb\<close>).
  \<open>who\<close> is either one user (\<open>users = None\<close>, the Go \<open>nil\<close>) or a bulk set of users.
  The names \<open>from\<close>, \<open>to\<close> and \<open>value\<close> are Isabelle keywords: the fields of
  \<open>changedCtx\<close> are \<open>from_step\<close> and \<open>to_step\<close>, the field of \<open>item\<close> is
  \<open>item_value\<close>. The field \<open>w\<close> of the transaction is \<open>wkr\<close>.
\<close>

record who =
  user :: "32 word"
  users :: "bitmap option"

record changedCtx =
  from_step :: string
  to_step :: string
  who :: who
  ttl :: "32 word"

text \<open>
  The part of the state worker a transaction reads: its key, its shard state, the map
  \<open>directSteps\<close> from a direct step to the step it routes to, and \<open>isDirectStep\<close>.
  The worker's own source is not part of the development, so \<open>isDirectStep\<close> is a field
  the worker supplies.
\<close>

record stateWorker =
  key :: string
  state :: workflowInstanceWorkerState
  directSteps :: "string \<rightharpoonup> string"
  isDirectStep :: "string \<Rightarrow> bool"

text \<open>Reading a Go \<open>map[string]string\<close> at a missing key gives the empty string.\<close>

definition directStepsAt :: "stateWorker \<Rightarrow> string \<Rightarrow> string" where
  "directStepsAt wk s = (case directSteps wk s of Some t \<Rightarrow> t | None \<Rightarrow> [])"

definition stepName :: "stateWorker \<Rightarrow> nat \<Rightarrow> string" where
  "stepName wk idx = Name (Step (States (state wk) ! idx))"

text \<open>A callback \<open>*stepCB\<close> is known by its handle.\<close>

type_synonym stepCB = nat

record transaction =
  wkr :: stateWorker
  totalCrowds :: bitmap
  stepCrowds :: "bitmap list"
  err :: "error option"
  cbs :: "stepCB list"
  changes :: "changedCtx list"
  crowdChanged :: bool

datatype itemValue = IntValue int | UserEvents "userEvent list" | Bytes "8 word list"

record item =
  item_value :: itemValue
  cb :: "stepCB option"

subsection \<open>removeFromStep and moveToStep\<close>

definition removeFromStep :: "transaction \<Rightarrow> nat \<Rightarrow> who \<Rightarrow> error + (bool \<times> transaction)" where
  "removeFromStep tran idx target =
    (let changed = False in
     if length (stepCrowds tran) \<le> idx then Inl (Panic ''index out of range'')
     else case users target of
       Some us \<Rightarrow>
         (let afterChanged = BMAndnot (stepCrowds tran ! idx) us in
          if GetCardinality (stepCrowds tran ! idx) = GetCardinality afterChanged
          then Inr (False, tran)
          else Inr (changed, tran\<lparr>stepCrowds := (stepCrowds tran)[idx := afterChanged]\<rparr>))
     | None \<Rightarrow>
         Inr (changed,
              tran\<lparr>stepCrowds := (stepCrowds tran)[idx := stepCrowds tran ! idx - {user target}]\<rparr>))"

definition moveToStep :: "transaction \<Rightarrow> nat \<Rightarrow> who \<Rightarrow> error + (bool \<times> transaction)" where
  "moveToStep tran idx target =
    (let changed = True in
     if length (stepCrowds tran) \<le> idx then Inl (Panic ''index out of range'')
     else case users target of
       Some us \<Rightarrow>
         (let afterChanged = BMOr (stepCrowds tran ! idx) us in
          if GetCardinality (stepCrowds tran ! idx) = GetCardinality afterChanged
          then Inr (False, tran)
          else Inr (changed, tran\<lparr>stepCrowds := (stepCrowds tran)[idx := afterChanged]\<rparr>))
     | None \<Rightarrow>
         Inr (changed,
              tran\<lparr>stepCrowds := (stepCrowds tran)[idx := insert (user target) (stepCrowds tran ! idx)]\<rparr>))"

subsection \<open>addChanged\<close>

text \<open>
  Modelled from the spec: \<open>changedCtx.add\<close> is declared with the worker; the transaction
  "accumulates changes merged by (from, to) so repeated single-user transitions on the same
  edge coalesce into one bulk record": the users of the incoming change are united into the
  record's bitmap.
\<close>

definition whoSet :: "who \<Rightarrow> bitmap" where
  "whoSet x = (case users x of Some us \<Rightarrow> us | None \<Rightarrow> {user x})"

definition changedCtx_add :: "changedCtx \<Rightarrow> changedCtx \<Rightarrow> changedCtx" where
  "changedCtx_add c changed =
     c\<lparr>who := (who c)\<lparr>users :=
        Some ((case users (who c) of Some us \<Rightarrow> us | None \<Rightarrow> {}) \<union> whoSet (who changed))\<rparr>\<rparr>"

fun mergeChanged :: "changedCtx list \<Rightarrow> changedCtx \<Rightarrow> changedCtx list option" where
  "mergeChanged [] changed = None"
| "mergeChanged (c # cs) changed =
     (if from_step c = from_step changed \<and> to_step c = to_step changed
      then Some (changedCtx_add c changed # cs)
      else map_option ((#) c) (mergeChanged cs changed))"

definition addChanged :: "transaction \<Rightarrow> changedCtx \<Rightarrow> transaction" where
  "addChanged tran changed =
    (case mergeChanged (changes tran) changed of
       Some cs \<Rightarrow> tran\<lparr>changes := cs\<rparr>
     | None \<Rightarrow>
         (let ctx = \<lparr>from_step = from_step changed, to_step = to_step changed,
                     who = \<lparr>user = 0, users = Some {}\<rparr>, ttl = ttl changed\<rparr>
          in tran\<lparr>changes := changes tran @ [changedCtx_add ctx changed],
                   crowdChanged := True\<rparr>))"

subsection \<open>The direct-step chain\<close>

text \<open>
  The \<open>for\<close> loop of \<open>maybeTriggerDirectSteps\<close> has no bound of its own; it ends when it
  meets a step that is not direct. A walk that never ends is the value \<open>None\<close>.
\<close>

partial_function (option) directLoop ::
  "string \<Rightarrow> string \<Rightarrow> who \<Rightarrow> transaction \<Rightarrow> (transaction \<times> string) option" where
  "directLoop frm t target tran =
    (if \<not> isDirectStep (wkr tran) t
     then Some (addChanged tran \<lparr>from_step = frm, to_step = t, who = target, ttl = 0\<rparr>, t)
     else directLoop t (directStepsAt (wkr tran) t) target
            (addChanged tran \<lparr>from_step = frm, to_step = t, who = target, ttl = 0\<rparr>))"

fun moveToNamed :: "nat list \<Rightarrow> string \<Rightarrow> who \<Rightarrow> transaction \<Rightarrow> error + transaction" where
  "moveToNamed [] t target tran = Inr tran"
| "moveToNamed (idx # idxs) t target tran =
     (if stepName (wkr tran) idx = t
      then (case moveToStep tran idx target of
              Inl e \<Rightarrow> Inl e
            | Inr (changed, tran') \<Rightarrow> Inr tran')
      else moveToNamed idxs t target tran)"

definition maybeTriggerDirectSteps ::
  "transaction \<Rightarrow> nat \<Rightarrow> changedCtx \<Rightarrow> (error + transaction) option" where
  "maybeTriggerDirectSteps tran idx ctx =
    (if \<not> isDirectStep (wkr tran) (to_step ctx) then Some (Inr tran)
     else case directLoop (to_step ctx) (directStepsAt (wkr tran) (to_step ctx)) (who ctx) tran of
       None \<Rightarrow> None
     | Some (tran1, t) \<Rightarrow>
         Some (case removeFromStep tran1 idx (who ctx) of
                 Inl e \<Rightarrow> Inl e
               | Inr (changed, tran2) \<Rightarrow>
                   moveToNamed [0..<length (States (state (wkr tran2)))] t (who ctx) tran2))"

subsection \<open>stepChanged\<close>

fun stepChangedLoop :: "nat list \<Rightarrow> changedCtx \<Rightarrow> transaction \<Rightarrow> (error + transaction) option" where
  "stepChangedLoop [] ctx tran = Some (Inr tran)"
| "stepChangedLoop (idx # idxs) ctx tran =
     (if stepName (wkr tran) idx = from_step ctx then
        (case removeFromStep tran idx (who ctx) of
           Inl e \<Rightarrow> Some (Inl e)
         | Inr (changed, tran') \<Rightarrow> stepChangedLoop idxs ctx tran')
      else if stepName (wkr tran) idx = to_step ctx then
        (case moveToStep tran idx (who ctx) of
           Inl e \<Rightarrow> Some (Inl e)
         | Inr (changed, tran') \<Rightarrow>
             (let ctx' = ctx\<lparr>ttl := TTL (Step (States (state (wkr tran')) ! idx))\<rparr> in
              if changed then
                (case maybeTriggerDirectSteps (addChanged tran' ctx') idx ctx' of
                   None \<Rightarrow> None
                 | Some (Inl e) \<Rightarrow> Some (Inl e)
                 | Some (Inr tran'') \<Rightarrow> stepChangedLoop idxs ctx' tran'')
              else stepChangedLoop idxs ctx' tran'))
      else stepChangedLoop idxs ctx tran)"

definition stepChanged :: "transaction \<Rightarrow> changedCtx \<Rightarrow> (error + transaction) option" where
  "stepChanged tran ctx =
    (let ctx' = (case users (who ctx) of
                   Some us \<Rightarrow> ctx\<lparr>who := (who ctx)\<lparr>users := Some (us \<inter> totalCrowds tran)\<rparr>\<rparr>
                 | None \<Rightarrow> ctx)
     in stepChangedLoop [0..<length (States (state (wkr tran)))] ctx' tran)"

subsection \<open>The three inputs of a tick\<close>

text \<open>
  A step's \<open>Execute\<close> (the expression evaluator) is a collaborator: it receives the
  expression context (the event and the step index), the transaction and the target, and
  returns an error or not together with the transaction as it left it. \<open>steps\<close> is the
  worker's map from step name to evaluator; calling through a missing entry is a nil
  dereference.
\<close>

type_synonym exprCtx = "userEvent \<times> nat"

type_synonym stepExecute = "exprCtx \<Rightarrow> transaction \<Rightarrow> who \<Rightarrow> error option \<times> transaction"

text \<open>The storage write of a timer step: the key is built from these three values.\<close>

datatype storeOp = StoreLastTrigger "64 word" "64 word" string

definition doStepTimerEvent ::
  "(string \<rightharpoonup> stepExecute) \<Rightarrow> transaction \<Rightarrow> item \<Rightarrow> error + (transaction \<times> storeOp list)" where
  "doStepTimerEvent steps tran it =
    (case item_value it of
       IntValue i \<Rightarrow>
         if err tran \<noteq> None then Inr (tran, [])
         else if i < 0 \<or> int (length (States (state (wkr tran)))) \<le> i
         then Inl (Panic ''index out of range'')
         else
           (let idx = nat i; st = Step (States (state (wkr tran)) ! idx) in
            if Type (Execution st) \<noteq> Timer then Inr (tran, [])
            else (case steps (Name st) of
              None \<Rightarrow> Inl (Panic ''nil pointer dereference'')
            | Some execute \<Rightarrow>
                (case execute (\<lparr>evTenantID = TenantID (state (wkr tran)),
                                 evWorkflowID = WorkflowID (state (wkr tran)),
                                 evInstanceID = InstanceID (state (wkr tran)),
                                 UserID = 0\<rparr>, idx) tran \<lparr>user = 0, users = None\<rparr> of
                   (Some e, tran') \<Rightarrow> Inr (tran'\<lparr>err := Some e\<rparr>, [])
                 | (None, tran') \<Rightarrow>
                     Inr (tran', [StoreLastTrigger (WorkflowID (state (wkr tran')))
                                    (InstanceID (state (wkr tran'))) (Name st)]))))
     | _ \<Rightarrow> Inl (Panic ''interface conversion''))"

definition collectCB :: "transaction \<Rightarrow> item \<Rightarrow> transaction" where
  "collectCB tran it =
     (case cb it of Some c \<Rightarrow> tran\<lparr>cbs := cbs tran @ [c]\<rparr> | None \<Rightarrow> tran)"

fun findStepCrowd :: "bitmap list \<Rightarrow> 32 word \<Rightarrow> nat \<Rightarrow> nat option" where
  "findStepCrowd [] u idx = None"
| "findStepCrowd (crowd # crowds) u idx =
     (if u \<in> crowd then Some idx else findStepCrowd crowds u (Suc idx))"

fun userEventsLoop ::
  "(string \<rightharpoonup> stepExecute) \<Rightarrow> userEvent list \<Rightarrow> transaction \<Rightarrow> error + transaction" where
  "userEventsLoop steps [] tran = Inr tran"
| "userEventsLoop steps (event # events) tran =
     (case findStepCrowd (stepCrowds tran) (UserID event) 0 of
        None \<Rightarrow> userEventsLoop steps events tran
      | Some idx \<Rightarrow>
          (if length (States (state (wkr tran))) \<le> idx then Inl (Panic ''index out of range'')
           else (case steps (stepName (wkr tran) idx) of
             None \<Rightarrow> Inl (Panic ''nil pointer dereference'')
           | Some execute \<Rightarrow>
               (case execute (event, idx) tran \<lparr>user = UserID event, users = None\<rparr> of
                  (Some e, tran') \<Rightarrow> Inr (tran'\<lparr>err := Some e\<rparr>)
                | (None, tran') \<Rightarrow> userEventsLoop steps events tran'))))"

definition doStepUserEvents ::
  "(string \<rightharpoonup> stepExecute) \<Rightarrow> transaction \<Rightarrow> item \<Rightarrow> error + transaction" where
  "doStepUserEvents steps tran it =
    (let tran1 = collectCB tran it in
     if err tran1 \<noteq> None then Inr tran1
     else case item_value it of
       UserEvents events \<Rightarrow> userEventsLoop steps events tran1
     | _ \<Rightarrow> Inl (Panic ''interface conversion''))"

text \<open>
  \<open>bbutil.MustParseBMTo\<close> belongs to \<open>pkg/util\<close>: the parser is a parameter, \<open>None\<close> where
  it panics on bytes that are not a bitmap.
\<close>

fun updateStepCrowds :: "nat \<Rightarrow> bitmap \<Rightarrow> bitmap \<Rightarrow> bitmap list \<Rightarrow> bitmap list" where
  "updateStepCrowds idx newAdded newTotal [] = []"
| "updateStepCrowds idx newAdded newTotal (sc # scs) =
     ((if idx = 0 then sc \<union> newAdded else sc) \<inter> newTotal)
       # updateStepCrowds (Suc idx) newAdded newTotal scs"

definition doUpdateCrowd ::
  "(8 word list \<Rightarrow> bitmap option) \<Rightarrow> transaction \<Rightarrow> item \<Rightarrow> error + transaction" where
  "doUpdateCrowd MustParseBM tran it =
    (let tran1 = collectCB tran it in
     if err tran1 \<noteq> None then Inr tran1
     else case item_value it of
       Bytes crowd \<Rightarrow>
         (case MustParseBM crowd of
            None \<Rightarrow> Inl (Panic ''parse bitmap'')
          | Some newTotal \<Rightarrow>
              (let newAdded = ({} \<union> newTotal) - totalCrowds tran1 in
               Inr (tran1\<lparr>totalCrowds := {} \<union> newTotal,
                          stepCrowds := updateStepCrowds 0 newAdded newTotal (stepCrowds tran1),
                          crowdChanged := True\<rparr>)))
     | _ \<Rightarrow> Inl (Panic ''interface conversion''))"

section \<open>The engine controller\<close>

text \<open>
  Modelled from the spec: an instance is in one of the states Starting, Running, Stopping
  and Stopped, and a crowd is loaded by one of three loaders (inline raw bytes, a single KV
  key, sharded KV). \<open>StartInstance\<close> leaves the state of the instance it builds at the
  zero value of the enumeration, the first state.
\<close>

datatype instanceState = Starting | Running | Stopping | Stopped

datatype BMLoader = RawLoader | KVLoader | KVShardLoader

record workflow =
  ID :: "64 word"
  Steps :: "step list"

text \<open>
  \<open>InstanceID\<close> is also a field of the worker state; the field of the instance is
  \<open>instInstanceID\<close>. \<open>TotalCrowd\<close> holds a bitmap's cardinality (see \<open>GetCardinality\<close>).
\<close>

record workflowInstance =
  Snapshot :: workflow
  instInstanceID :: "64 word"
  Loader :: BMLoader
  LoaderMeta :: "8 word list"
  TotalCrowd :: nat
  Workers :: "64 word"
  State :: instanceState

text \<open>
  What \<open>StartInstance\<close> calls outside itself: the workflow validator, the bitmap loaders,
  the store, the id allocator and the key builders. \<open>StartInstance\<close> reads before it
  writes, so every read sees the store as it was when the call began; the writes it makes
  are returned as a list of effects, in order.
\<close>

record engineEnv =
  checkExcution :: "workflow \<Rightarrow> error option"
  loadBM :: "BMLoader \<Rightarrow> 8 word list \<Rightarrow> error + bitmap"
  storeGet :: "8 word list \<Rightarrow> error + 8 word list"
  WorkflowCurrentInstanceKey :: "64 word \<Rightarrow> 8 word list"
  MustUnmarshalInstance :: "8 word list \<Rightarrow> workflowInstance option"
  AllocID :: "error + 64 word"
  WorkflowCrowdShardKey :: "64 word \<Rightarrow> 64 word \<Rightarrow> 32 word \<Rightarrow> 8 word list"
  putBM :: "bitmap \<Rightarrow> 8 word list \<Rightarrow> 32 word \<Rightarrow> error + (BMLoader \<times> 8 word list)"
  ExecCommand :: "workflowInstance \<Rightarrow> error option"

datatype effect =
  PutBM bitmap "8 word list" "32 word"
| StartingInstanceRequest workflowInstance

definition loadInstance :: "engineEnv \<Rightarrow> 64 word \<Rightarrow> error + workflowInstance option" where
  "loadInstance env wid =
    (case storeGet env (WorkflowCurrentInstanceKey env wid) of
       Inl e \<Rightarrow> Inl e
     | Inr v \<Rightarrow>
         if length v = 0 then Inr None
         else (case MustUnmarshalInstance env v of
                 None \<Rightarrow> Inl (Panic ''unmarshal'')
               | Some instance \<Rightarrow> Inr (Some instance)))"

text \<open>
  The tail of \<open>StartInstance\<close>, from \<open>AllocID\<close> on, with the crowd \<open>bm\<close> as it stands after
  the optional subtraction. The result is the returned error (\<open>None\<close> is Go's \<open>nil\<close>) and
  the effects made.
\<close>

definition startWithCrowd ::
  "engineEnv \<Rightarrow> workflow \<Rightarrow> bitmap \<Rightarrow> 64 word \<Rightarrow> error option \<times> effect list" where
  "startWithCrowd env wflow bm workers =
    (case AllocID env of
       Inl e \<Rightarrow> (Some e, [])
     | Inr newID \<Rightarrow>
         (let k = WorkflowCrowdShardKey env (ID wflow) newID 0 in
          case putBM env bm k 0 of
            Inl e \<Rightarrow> (Some e, [PutBM bm k 0])
          | Inr (ldr, loaderMeta) \<Rightarrow>
              (let instance = \<lparr>Snapshot = wflow, instInstanceID = newID, Loader = ldr,
                                LoaderMeta = loaderMeta, TotalCrowd = GetCardinality bm,
                                Workers = workers, State = Starting\<rparr>
               in (ExecCommand env instance,
                   [PutBM bm k 0, StartingInstanceRequest instance]))))"

definition StartInstance ::
  "engineEnv \<Rightarrow> workflow \<Rightarrow> BMLoader \<Rightarrow> 8 word list \<Rightarrow> 64 word \<Rightarrow> error option \<times> effect list" where
  "StartInstance env wflow ldr crowdMeta workers =
    (case checkExcution env wflow of
       Some e \<Rightarrow> (Some e, [])
     | None \<Rightarrow>
         (case loadBM env ldr crowdMeta of
            Inl e \<Rightarrow> (Some e, [])
          | Inr bm \<Rightarrow>
              (case loadInstance env (ID wflow) of
                 Inl e \<Rightarrow> (Some e, [])
               | Inr (Some old) \<Rightarrow>
                   if State old \<noteq> Stopped then (None, [])
                   else (case loadBM env (Loader old) (LoaderMeta old) of
                           Inl e \<Rightarrow> (Some e, [])
                         | Inr oldBM \<Rightarrow> startWithCrowd env wflow (bm - oldBM) workers)
               | Inr None \<Rightarrow> startWithCrowd env wflow bm workers)))"

subsection \<open>The worker registry\<close>

text \<open>\<open>fmt.Sprintf("%d", n)\<close> of an unsigned integer: its decimal digits.\<close>

definition digitChar :: "nat \<Rightarrow> char" where
  "digitChar d = ''0123456789'' ! d"

fun decimal :: "nat \<Rightarrow> string" where
  "decimal n = (if n < 10 then [digitChar n] else decimal (n div 10) @ [digitChar (n mod 10)])"

declare decimal.simps [simp del]

definition workerKey :: "workflowInstanceWorkerState \<Rightarrow> string" where
  "workerKey st = decimal (unat (WorkflowID st)) @ ''/'' @ decimal (unat (Index st))"

text \<open>
  The engine as the placement handler sees it: the registry \<open>workers\<close> (a \<open>sync.Map\<close> from
  key to worker), the workers that were started with \<open>run\<close>, and the stop callbacks handed
  to the timer wheel: the worker's key and the delay, a \<open>time.Duration\<close>, that is a signed
  64-bit count of nanoseconds. The delay is \<open>time.Second * time.Duration(StopAt - now)\<close>,
  a product of 64-bit integers, which wraps around.
\<close>

definition Second :: "64 word" where
  "Second = 1000000000"

record engine =
  workers :: "string \<rightharpoonup> stateWorker"
  running :: "string list"
  scheduled :: "(64 word \<times> string) list"

text \<open>
  \<open>newStateWorker\<close> is defined with the worker: it is a parameter, given the number of the
  attempt as well so that a failed attempt can be followed by a successful one. The handler
  retries it without limit; a handler that never gets a worker is the value \<open>None\<close>.
\<close>

partial_function (option) newStateWorkerLoop ::
  "(nat \<Rightarrow> string \<Rightarrow> workflowInstanceWorkerState \<Rightarrow> error + stateWorker) \<Rightarrow> nat \<Rightarrow> string
     \<Rightarrow> workflowInstanceWorkerState \<Rightarrow> stateWorker option" where
  "newStateWorkerLoop newStateWorker attempt k st =
    (case newStateWorker attempt k st of
       Inl e \<Rightarrow> newStateWorkerLoop newStateWorker (Suc attempt) k st
     | Inr wk \<Rightarrow> Some wk)"

definition doStartInstanceStateEvent ::
  "(nat \<Rightarrow> string \<Rightarrow> workflowInstanceWorkerState \<Rightarrow> error + stateWorker) \<Rightarrow> 64 word \<Rightarrow> engine
     \<Rightarrow> workflowInstanceWorkerState \<Rightarrow> (error + engine) option" where
  "doStartInstanceStateEvent newStateWorker now eng st =
    (let k = workerKey st in
     if workers eng k \<noteq> None then Some (Inl (Fatal ''BUG: start a exists state worker''))
     else if StopAt st \<noteq> 0 \<and> StopAt st \<le>s now then Some (Inr eng)
     else (case newStateWorkerLoop newStateWorker 0 k st of
             None \<Rightarrow> None
           | Some wk \<Rightarrow>
               Some (Inr (eng\<lparr>workers := (workers eng)(key wk \<mapsto> wk),
                              running := running eng @ [key wk],
                              scheduled := scheduled eng @
                                (if StopAt st \<noteq> 0
                                 then [(Second * (StopAt st - now), key wk)] else [])\<rparr>))))"

section \<open>Storage batches\<close>

text \<open>
  \<open>rpcpb.Type\<close> is an enumeration of the protocol package; the queue batch supports
  \<open>QueueAdd\<close>, and \<open>OtherType\<close> stands for every other command type.
\<close>

datatype rpcType = QueueAdd | OtherType nat

record request =
  Key :: "8 word list"
  CustemType :: rpcType
  Cmd :: "8 word list"

record response =
  Value :: "8 word list"

text \<open>
  A \<open>batchType\<close> is an interface value: its methods and the state they work on. \<open>addReq\<close>
  receives the request, the shard recorded in the batch (which it reads to pick the store)
  and its own state; it returns its new state and the value of the response.
\<close>

record 's batchType =
  support :: "rpcType list"
  addReq :: "request \<Rightarrow> 64 word \<Rightarrow> 's \<Rightarrow> error + ('s \<times> 8 word list)"

record 's batch =
  shard :: "64 word"
  writtenBytes :: "64 word"
  changedBytes :: "64 word"
  types :: "('s batchType \<times> 's) list"
  fn :: "rpcType \<rightharpoonup> nat"

fun registerTypes ::
  "('s batchType \<times> 's) list \<Rightarrow> nat \<Rightarrow> (rpcType \<rightharpoonup> nat) \<Rightarrow> (rpcType \<rightharpoonup> nat)" where
  "registerTypes [] i m = m"
| "registerTypes (tp # tps) i m =
     registerTypes tps (Suc i) (fold (\<lambda>t m'. m'(t \<mapsto> i)) (support (fst tp)) m)"

definition newBatch :: "('s batchType \<times> 's) list \<Rightarrow> 's batch" where
  "newBatch tps = \<lparr>shard = 0, writtenBytes = 0, changedBytes = 0, types = tps,
                   fn = registerTypes tps 0 Map.empty\<rparr>"

text \<open>\<open>Add\<close> returns \<open>(bool, response, error)\<close>; the error it returns is always \<open>nil\<close>.\<close>

definition Add ::
  "'s batch \<Rightarrow> 64 word \<Rightarrow> request \<Rightarrow> error + (bool \<times> response option \<times> 's batch)" where
  "Add b shd req =
    (if shard b \<noteq> 0 \<and> shard b \<noteq> shd
     then Inl (Fatal ''BUG: diffent shard opts in a batch'')
     else
       (let b1 = b\<lparr>shard := shd\<rparr> in
        case fn b1 (CustemType req) of
          Some i \<Rightarrow>
            (if length (types b1) \<le> i then Inl (Panic ''nil pointer dereference'')
             else (case addReq (fst (types b1 ! i)) req (shard b1) (snd (types b1 ! i)) of
                     Inl e \<Rightarrow> Inl e
                   | Inr (s', v) \<Rightarrow>
                       Inr (True, Some \<lparr>Value = v\<rparr>,
                            b1\<lparr>types := (types b1)[i := (fst (types b1 ! i), s')]\<rparr>)))
        | None \<Rightarrow> Inr (False, None, b1)))"

text \<open>A batch is filled by one \<open>Add\<close> after the other; the first failure ends the run.\<close>

fun addRequests :: "'s batch \<Rightarrow> (64 word \<times> request) list \<Rightarrow> error + 's batch" where
  "addRequests b [] = Inr b"
| "addRequests b (r # rs) =
     (case Add b (fst r) (snd r) of
        Inl e \<Rightarrow> Inl e
      | Inr (ok, resp, b') \<Rightarrow> addRequests b' rs)"

subsection \<open>The queue batch\<close>

definition countToClean :: "64 word" where
  "countToClean = 4096"

definition maxConsumerAlive :: "64 word" where
  "maxConsumerAlive = 7 * 24 * 60 * 60"

text \<open>
  \<open>goetty.Byte2UInt64\<close> reads eight bytes, most significant first, and panics on a
  shorter slice; \<open>goetty.Uint64ToBytesTo\<close> writes them.
\<close>

definition Byte2UInt64 :: "8 word list \<Rightarrow> 64 word option" where
  "Byte2UInt64 bs =
     (if length bs < 8 then None
      else Some (foldl (\<lambda>acc b. push_bit 8 acc OR ucast b) 0 (take 8 bs)))"

definition Uint64ToBytes :: "64 word \<Rightarrow> 8 word list" where
  "Uint64ToBytes v = map (\<lambda>i. ucast (drop_bit (8 * (7 - i)) v)) [0..<8]"

record queueBatch =
  loaded :: bool
  maxOffset :: "64 word"
  removedOffset :: "64 word"
  queueKey :: "8 word list"
  consumerStartKey :: "8 word list"
  consumerEndKey :: "8 word list"
  maxAndCleanOffsetValue :: "8 word list"
  maxAndCleanOffsetKey :: "8 word list"
  pairs :: "8 word list list"

definition newQueueBatch :: queueBatch where
  "newQueueBatch = \<lparr>loaded = False, maxOffset = 0, removedOffset = 0, queueKey = [],
     consumerStartKey = [], consumerEndKey = [],
     maxAndCleanOffsetValue = replicate 16 0, maxAndCleanOffsetKey = [], pairs = []\<rparr>"

text \<open>
  The key builders and the codec of the queue requests live in other files of the storage
  package and in the protocol package; the store is reached through the batch.
\<close>

record queueEnv =
  mkConsumerStartKey :: "8 word list \<Rightarrow> 8 word list"
  mkConsumerEndKey :: "8 word list \<Rightarrow> 8 word list"
  mkMaxAndCleanOffsetKey :: "8 word list \<Rightarrow> 8 word list"
  itemKey :: "8 word list \<Rightarrow> 64 word \<Rightarrow> 8 word list"
  getStore :: "64 word \<Rightarrow> 8 word list \<Rightarrow> error + 8 word list"
  MustUnmarshalQueueAdd :: "8 word list \<Rightarrow> 8 word list list option"
  MustMarshalUint64 :: "64 word \<Rightarrow> 8 word list"
  Scan :: "8 word list \<Rightarrow> 8 word list \<Rightarrow> error + (8 word list \<times> 8 word list) list"

text \<open>Go's \<open>copy(dst, src)\<close> overwrites the first \<open>min (len dst) (len src)\<close> bytes.\<close>

definition copyBytes :: "8 word list \<Rightarrow> 8 word list \<Rightarrow> 8 word list" where
  "copyBytes dst src =
     take (min (length dst) (length src)) src @ drop (min (length dst) (length src)) dst"

fun appendItems :: "queueEnv \<Rightarrow> 8 word list \<Rightarrow> 8 word list list \<Rightarrow> queueBatch \<Rightarrow> queueBatch" where
  "appendItems qe k [] qb = qb"
| "appendItems qe k (x # xs) qb =
     appendItems qe k xs
       (qb\<lparr>maxOffset := maxOffset qb + 1,
           pairs := pairs qb @ [itemKey qe k (maxOffset qb + 1), x]\<rparr>)"

definition loadOffsets :: "queueEnv \<Rightarrow> 64 word \<Rightarrow> 8 word list \<Rightarrow> queueBatch \<Rightarrow> error + queueBatch" where
  "loadOffsets qe shd k qb =
    (if loaded qb then Inr qb
     else
       (let qb1 = qb\<lparr>queueKey := k, consumerStartKey := mkConsumerStartKey qe k,
                      consumerEndKey := mkConsumerEndKey qe k,
                      maxAndCleanOffsetKey := mkMaxAndCleanOffsetKey qe k\<rparr>
        in case getStore qe shd (maxAndCleanOffsetKey qb1) of
             Inl e \<Rightarrow> Inl (Fatal ''load max queue offset failed'')
           | Inr v \<Rightarrow>
               if 0 < length v then
                 (let buf = copyBytes (maxAndCleanOffsetValue qb1) v in
                  case (Byte2UInt64 buf, Byte2UInt64 (drop 8 buf)) of
                    (Some mx, Some rm) \<Rightarrow>
                      Inr (qb1\<lparr>maxAndCleanOffsetValue := buf, maxOffset := mx,
                                removedOffset := rm, loaded := True\<rparr>)
                  | _ \<Rightarrow> Inl (Panic ''index out of range''))
               else Inr (qb1\<lparr>loaded := True\<rparr>)))"

definition queueBatch_add ::
  "queueEnv \<Rightarrow> 64 word \<Rightarrow> 8 word list \<Rightarrow> 8 word list list \<Rightarrow> queueBatch \<Rightarrow> error + queueBatch" where
  "queueBatch_add qe shd k items qb =
    (case loadOffsets qe shd k qb of
       Inl e \<Rightarrow> Inl e
     | Inr qb1 \<Rightarrow> Inr (appendItems qe k items qb1))"

definition queueBatch_addReq ::
  "queueEnv \<Rightarrow> request \<Rightarrow> 64 word \<Rightarrow> queueBatch \<Rightarrow> error + (queueBatch \<times> 8 word list)" where
  "queueBatch_addReq qe req shd qb =
    (case CustemType req of
       QueueAdd \<Rightarrow>
         (case MustUnmarshalQueueAdd qe (Cmd req) of
            None \<Rightarrow> Inl (Panic ''unmarshal'')
          | Some items \<Rightarrow>
              (case queueBatch_add qe shd (Key req) items qb of
                 Inl e \<Rightarrow> Inl e
               | Inr qb' \<Rightarrow> Inr (qb', MustMarshalUint64 qe (maxOffset qb'))))
     | _ \<Rightarrow> Inl (Fatal ''BUG: not supoprt rpctype''))"

definition queueBatchType :: "queueEnv \<Rightarrow> queueBatch batchType" where
  "queueBatchType qe = \<lparr>support = [QueueAdd], addReq = queueBatch_addReq qe\<rparr>"

subsection \<open>exec of the queue batch\<close>

datatype storageOp =
  RangeDelete "8 word list" "8 word list"
| WbSet "8 word list" "8 word list"

text \<open>
  The callback of the scan over the consumer records: \<open>now - ts\<close> is a signed 64-bit
  subtraction and comparison, \<open>v < low\<close> an unsigned one.
\<close>

fun scanLow :: "64 word \<Rightarrow> (8 word list \<times> 8 word list) list \<Rightarrow> 64 word \<Rightarrow> error + 64 word" where
  "scanLow now [] low = Inr low"
| "scanLow now (kv # kvs) low =
     (case (Byte2UInt64 (snd kv), Byte2UInt64 (drop 8 (snd kv))) of
        (Some v, Some ts) \<Rightarrow>
          scanLow now kvs (if now - ts <s maxConsumerAlive \<and> v < low then v else low)
      | _ \<Rightarrow> Inl (Panic ''index out of range''))"

fun setPairs :: "8 word list list \<Rightarrow> storageOp list" where
  "setPairs (k # v # rest) = WbSet k v # setPairs rest"
| "setPairs _ = []"

definition writeOffsets :: "queueBatch \<Rightarrow> (error + queueBatch) \<times> storageOp list" where
  "writeOffsets qb =
    (if length (maxAndCleanOffsetValue qb) < 16 then (Inl (Panic ''index out of range''), [])
     else
       (let v = Uint64ToBytes (maxOffset qb) @ Uint64ToBytes (removedOffset qb)
                  @ drop 16 (maxAndCleanOffsetValue qb)
        in (Inr (qb\<lparr>maxAndCleanOffsetValue := v\<rparr>),
            WbSet (maxAndCleanOffsetKey qb) v # setPairs (pairs qb))))"

text \<open>
  \<open>exec\<close> returns the error it returns (\<open>Err\<close>), or the failure that ends it, or the queue
  batch as it leaves it, together with what it did to the store and to the write batch.
  In the source the call \<open>log.Fatalf\<close> of the standard library follows \<open>RangeDelete\<close>
  without a test of \<open>err\<close>; it ends the process, so the assignment
  \<open>qb.removedOffset = low\<close> after it is never executed.
\<close>

definition exec :: "queueEnv \<Rightarrow> 64 word \<Rightarrow> queueBatch \<Rightarrow> (error + queueBatch) \<times> storageOp list" where
  "exec qe now qb =
    (if length (pairs qb) mod 2 \<noteq> 0
     then (Inl (Err ''queue batch pairs len must pow of 2''), [])
     else if 0 < maxOffset qb then
       (if countToClean < maxOffset qb - removedOffset qb then
          (case Scan qe (consumerStartKey qb) (consumerEndKey qb) of
             Inl e \<Rightarrow> (Inl (Fatal ''exec queue add batch failed''), [])
           | Inr kvs \<Rightarrow>
               (case scanLow now kvs (- 1) of
                  Inl e \<Rightarrow> (Inl e, [])
                | Inr low \<Rightarrow>
                    if removedOffset qb < low
                    then (Inl (Fatal ''exec queue add batch failed''),
                          [RangeDelete (itemKey qe (queueKey qb) (removedOffset qb))
                                       (itemKey qe (queueKey qb) (low + 1))])
                    else writeOffsets qb))
        else writeOffsets qb)
     else (Inr qb, setPairs (pairs qb)))"

section \<open>Notions used in the statements\<close>

text \<open>
  The hops of a direct chain that starts at step \<open>s\<close>: hop \<open>i\<close> leads from the \<open>i\<close>-th
  step of the chain to the next one.
\<close>

definition hopAt :: "stateWorker \<Rightarrow> who \<Rightarrow> string \<Rightarrow> nat \<Rightarrow> changedCtx" where
  "hopAt wk target s i =
     \<lparr>from_step = (directStepsAt wk ^^ i) s, to_step = (directStepsAt wk ^^ Suc i) s,
      who = target, ttl = 0\<rparr>"

text \<open>
  A transaction \<open>b\<close> stays within \<open>W\<close> of a transaction \<open>a\<close> when it has the same
  worker, the same total crowd and as many step crowds, and every step crowd of \<open>b\<close> holds
  only users that the same step held in \<open>a\<close> or that are in \<open>W\<close>.
\<close>

definition crowdsWithin :: "bitmap \<Rightarrow> transaction \<Rightarrow> transaction \<Rightarrow> bool" where
  "crowdsWithin W a b \<longleftrightarrow>
     wkr b = wkr a \<and> totalCrowds b = totalCrowds a
     \<and> length (stepCrowds b) = length (stepCrowds a)
     \<and> (\<forall>i. stepCrowds b ! i \<subseteq> stepCrowds a ! i \<union> W)"

text \<open>Reading a decimal numeral back.\<close>

definition undecimal :: "string \<Rightarrow> nat" where
  "undecimal s = foldl (\<lambda>a c. 10 * a + (of_char c - 48)) 0 s"

section \<open>Concrete inputs\<close>

text \<open>
  The shard of the scenarios of the specification: a workflow with the steps \<open>A\<close> and \<open>B\<close>,
  the crowd \<open>{1, 2, 3, 4}\<close>, the users 1 and 3 in step \<open>A\<close> and the users 2 and 4 in
  step \<open>B\<close>.
\<close>

definition demoStepA :: stepState where
  "demoStepA = \<lparr>Step = \<lparr>Name = ''A'', Execution = \<lparr>Type = Conditional\<rparr>, TTL = 0\<rparr>\<rparr>"

definition demoStepB :: stepState where
  "demoStepB = \<lparr>Step = \<lparr>Name = ''B'', Execution = \<lparr>Type = Conditional\<rparr>, TTL = 0\<rparr>\<rparr>"

definition demoWorker :: stateWorker where
  "demoWorker = \<lparr>key = ''1/0'',
     state = \<lparr>TenantID = 1, WorkflowID = 1, InstanceID = 2, Index = 0, StopAt = 0,
              States = [demoStepA, demoStepB]\<rparr>,
     directSteps = Map.empty, isDirectStep = (\<lambda>s. False)\<rparr>"

definition demoTran :: transaction where
  "demoTran = \<lparr>wkr = demoWorker, totalCrowds = {1, 2, 3, 4}, stepCrowds = [{1, 3}, {2, 4}],
     err = None, cbs = [], changes = [], crowdChanged = False\<rparr>"

text \<open>The same transaction after a step's \<open>Execute\<close> has failed in the tick.\<close>

definition failedTran :: transaction where
  "failedTran = demoTran\<lparr>err := Some (Err ''execute failed'')\<rparr>"

text \<open>A stand-in for the bitmap parser: every byte is one user id.\<close>

definition demoParse :: "8 word list \<Rightarrow> bitmap option" where
  "demoParse bs = Some (ucast ` set bs)"

definition demoUpdate :: item where
  "demoUpdate = \<lparr>item_value = Bytes [2, 3, 4, 5], cb = Some 7\<rparr>"

definition demoTimer :: item where
  "demoTimer = \<lparr>item_value = IntValue 0, cb = None\<rparr>"

definition demoUserEvents :: item where
  "demoUserEvents =
     \<lparr>item_value = UserEvents [\<lparr>evTenantID = 1, evWorkflowID = 1, evInstanceID = 2, UserID = 3\<rparr>],
      cb = Some 9\<rparr>"

text \<open>
  An engine environment for workflow 1: the raw loader reads every byte of the meta as one
  user id, the store holds \<open>current\<close> as the instance of workflow 1, the validator
  rejects a workflow without steps, and every write succeeds.
\<close>

definition demoWorkflow :: workflow where
  "demoWorkflow = \<lparr>ID = 1, Steps = [Step demoStepA, Step demoStepB]\<rparr>"

definition stoppedInstance :: workflowInstance where
  "stoppedInstance = \<lparr>Snapshot = demoWorkflow, instInstanceID = 2, Loader = RawLoader,
     LoaderMeta = [1, 2], TotalCrowd = 2, Workers = 1, State = Stopped\<rparr>"

definition runningInstance :: workflowInstance where
  "runningInstance = stoppedInstance\<lparr>State := Running\<rparr>"

definition demoEnv :: "workflowInstance option \<Rightarrow> engineEnv" where
  "demoEnv current =
    \<lparr>checkExcution = (\<lambda>w. if Steps w = [] then Some (Err ''workflow has no steps'') else None),
     loadBM = (\<lambda>l meta. if l = RawLoader then Inr (ucast ` set meta)
                          else Inl (Err ''unknown loader'')),
     storeGet = (\<lambda>k. Inr (if k = [1] \<and> current \<noteq> None then [1] else [])),
     WorkflowCurrentInstanceKey = (\<lambda>wid. [ucast wid]),
     MustUnmarshalInstance = (\<lambda>v. current),
     AllocID = Inr 3,
     WorkflowCrowdShardKey = (\<lambda>wid iid sh. [ucast wid, ucast iid, ucast sh]),
     putBM = (\<lambda>bm k t. Inr (KVShardLoader, k)),
     ExecCommand = (\<lambda>i. None)\<rparr>"

definition demoInstance :: "nat \<Rightarrow> workflowInstance" where
  "demoInstance crowdSize = \<lparr>Snapshot = demoWorkflow, instInstanceID = 3, Loader = KVShardLoader,
     LoaderMeta = [1, 3, 0], TotalCrowd = crowdSize, Workers = 1, State = Starting\<rparr>"

text \<open>A worker constructor that fails on the first attempt and succeeds on the second.\<close>

definition demoNewStateWorker :: "nat \<Rightarrow> string \<Rightarrow> workflowInstanceWorkerState \<Rightarrow> error + stateWorker" where
  "demoNewStateWorker attempt k st =
     (if attempt = 0 then Inl (Err ''load step crowd failed'')
      else Inr \<lparr>key = k, state = st, directSteps = Map.empty, isDirectStep = (\<lambda>s. False)\<rparr>)"

definition demoEngine :: engine where
  "demoEngine = \<lparr>workers = [''1/0'' \<mapsto> demoWorker], running = [''1/0''], scheduled = []\<rparr>"

definition emptyEngine :: engine where
  "emptyEngine = \<lparr>workers = Map.empty, running = [], scheduled = []\<rparr>"

text \<open>
  A queue whose single consumer has committed offset 10 and fetched last at second 90,
  and a queue batch with 5000 items of which none has been removed.
\<close>

definition demoQueueEnv :: queueEnv where
  "demoQueueEnv = \<lparr>mkConsumerStartKey = (\<lambda>k. k @ [1]), mkConsumerEndKey = (\<lambda>k. k @ [2]),
     mkMaxAndCleanOffsetKey = (\<lambda>k. k @ [3]), itemKey = (\<lambda>k off. k @ 4 # Uint64ToBytes off),
     getStore = (\<lambda>shd k. Inr []),
     MustUnmarshalQueueAdd = (\<lambda>bs. Some (map (\<lambda>b. [b]) bs)),
     MustMarshalUint64 = Uint64ToBytes,
     Scan = (\<lambda>from_key to_key. Inr [(from_key, [0, 0, 0, 0, 0, 0, 0, 10, 0, 0, 0, 0, 0, 0, 0, 90])])\<rparr>"

definition demoQueueBatch :: queueBatch where
  "demoQueueBatch = \<lparr>loaded = True, maxOffset = 5000, removedOffset = 0, queueKey = [7],
     consumerStartKey = [7, 1], consumerEndKey = [7, 2],
     maxAndCleanOffsetValue = replicate 16 0, maxAndCleanOffsetKey = [7, 3], pairs = []\<rparr>"

definition demoBatch :: "queueBatch batch" where
  "demoBatch = newBatch [(queueBatchType demoQueueEnv, newQueueBatch)]"

definition demoAdd :: request where
  "demoAdd = \<lparr>Key = [7], CustemType = QueueAdd, Cmd = [1, 2]\<rparr>"

definition demoOther :: request where
  "demoOther = \<lparr>Key = [7], CustemType = OtherType 0, Cmd = []\<rparr>"

text \<open>The demo batch after one \<open>QueueAdd\<close> request with two items for shard 7.\<close>

definition demoFilled :: "queueBatch batch" where
  "demoFilled = demoBatch\<lparr>shard := 7, types := [(queueBatchType demoQueueEnv,
       newQueueBatch\<lparr>queueKey := [7], consumerStartKey := [7, 1], consumerEndKey := [7, 2],
          maxAndCleanOffsetKey := [7, 3], loaded := True, maxOffset := 2,
          pairs := [[7, 4, 0, 0, 0, 0, 0, 0, 0, 1], [1], [7, 4, 0, 0, 0, 0, 0, 0, 0, 2], [2]]\<rparr>)]\<rparr>"

text \<open>
  A workflow in which step \<open>A\<close> routes to the direct step \<open>D1\<close>, which routes to the direct
  step \<open>D2\<close>, which routes to \<open>B\<close>; user 1 has just been moved from \<open>A\<close> to \<open>D1\<close>. In
  the second worker the two direct steps route to each other.
\<close>

definition demoStep :: "string \<Rightarrow> executionType \<Rightarrow> stepState" where
  "demoStep nm tp = \<lparr>Step = \<lparr>Name = nm, Execution = \<lparr>Type = tp\<rparr>, TTL = 0\<rparr>\<rparr>"

definition chainWorker :: stateWorker where
  "chainWorker = \<lparr>key = ''1/0'',
     state = \<lparr>TenantID = 1, WorkflowID = 1, InstanceID = 2, Index = 0, StopAt = 0,
              States = [demoStep ''A'' Conditional, demoStep ''D1'' Direct,
                        demoStep ''D2'' Direct, demoStep ''B'' Conditional]\<rparr>,
     directSteps = [''D1'' \<mapsto> ''D2'', ''D2'' \<mapsto> ''B''],
     isDirectStep = (\<lambda>s. s = ''D1'' \<or> s = ''D2'')\<rparr>"

definition chainTran :: transaction where
  "chainTran = \<lparr>wkr = chainWorker, totalCrowds = {1, 2, 3, 4},
     stepCrowds = [{3}, {1}, {}, {2, 4}],
     err = None, cbs = [], changes = [], crowdChanged = False\<rparr>"

definition chainCtx :: changedCtx where
  "chainCtx = \<lparr>from_step = ''A'', to_step = ''D1'', who = \<lparr>user = 1, users = None\<rparr>, ttl = 0\<rparr>"

definition loopWorker :: stateWorker where
  "loopWorker = chainWorker\<lparr>directSteps := [''D1'' \<mapsto> ''D2'', ''D2'' \<mapsto> ''D1'']\<rparr>"

definition loopTran :: transaction where
  "loopTran = chainTran\<lparr>wkr := loopWorker\<rparr>"

text \<open>
  A bulk transition from \<open>A\<close> to \<open>B\<close> reported for the users 1 and 9, of which user 9
  belongs to another shard, and the demo transaction after it.
\<close>

definition demoMove :: changedCtx where
  "demoMove = \<lparr>from_step = ''A'', to_step = ''B'',
                who = \<lparr>user = 0, users = Some {1, 9}\<rparr>, ttl = 0\<rparr>"

definition movedTran :: transaction where
  "movedTran = demoTran\<lparr>stepCrowds := [{3}, {1, 2, 4}],
     changes := [\<lparr>from_step = ''A'', to_step = ''B'',
                  who = \<lparr>user = 0, users = Some {1}\<rparr>, ttl = 0\<rparr>],
     crowdChanged := True\<rparr>"

section \<open>Properties of the transaction\<close>

subsection \<open>removeFromStep and moveToStep\<close>

lemma removeFromStep_never_reports:
  "removeFromStep tran idx target = Inr (changed, tran') \<Longrightarrow> \<not> changed"
  by (auto simp: removeFromStep_def Let_def split: if_splits option.splits)

lemma moveToStep_single_always_reports:
  "users target = None \<Longrightarrow> idx < length (stepCrowds tran) \<Longrightarrow>
   \<exists>tran'. moveToStep tran idx target = Inr (True, tran')"
  by (simp add: moveToStep_def)

lemma moveToStep_single_present:
  "moveToStep demoTran 0 \<lparr>user = 1, users = None\<rparr> = Inr (True, demoTran)"
  by (simp add: moveToStep_def demoTran_def insert_absorb)

text \<open>
  C2: \<open>removeFromStep\<close> is to report \<open>changed = true\<close> exactly when the cardinality of
  the step crowd went down (and \<open>moveToStep\<close> exactly when it went up). The source does
  not: its variable \<open>changed\<close> starts as \<open>false\<close> and no branch sets it. Removing the bulk
  set \<open>{1}\<close> from step 0 of the demo shard takes the crowd from \<open>{1, 3}\<close> to \<open>{3}\<close>, the
  cardinality from 2 to 1, and the result is \<open>changed = false\<close>.
\<close>

theorem removeFromStep_bulk_reports_false:
  "removeFromStep demoTran 0 \<lparr>user = 0, users = Some {1}\<rparr>
     = Inr (False, demoTran\<lparr>stepCrowds := [{3}, {2, 4}]\<rparr>)
   \<and> GetCardinality (stepCrowds (demoTran\<lparr>stepCrowds := [{3}, {2, 4}]\<rparr>) ! 0)
       < GetCardinality (stepCrowds demoTran ! 0)"
  by (simp add: removeFromStep_def demoTran_def BMAndnot_def GetCardinality_def insert_Diff_if)

subsection \<open>The direct-step chain\<close>

lemma wkr_addChanged [simp]: "wkr (addChanged tran c) = wkr tran"
  by (simp add: addChanged_def Let_def split: option.splits)

lemma stepCrowds_addChanged [simp]: "stepCrowds (addChanged tran c) = stepCrowds tran"
  by (simp add: addChanged_def Let_def split: option.splits)

lemma totalCrowds_addChanged [simp]: "totalCrowds (addChanged tran c) = totalCrowds tran"
  by (simp add: addChanged_def Let_def split: option.splits)

lemma wkr_foldl_addChanged [simp]: "wkr (foldl addChanged tran cs) = wkr tran"
  by (induction cs arbitrary: tran) simp_all

lemma directLoop_walk:
  assumes "\<not> isDirectStep (wkr tran) ((directStepsAt (wkr tran) ^^ n) t)"
    and "\<forall>i<n. isDirectStep (wkr tran) ((directStepsAt (wkr tran) ^^ i) t)"
  shows "directLoop frm t target tran =
     Some (foldl addChanged tran
             (\<lparr>from_step = frm, to_step = t, who = target, ttl = 0\<rparr>
                # map (hopAt (wkr tran) target t) [0..<n]),
           (directStepsAt (wkr tran) ^^ n) t)"
  using assms
proof (induction n arbitrary: frm t tran)
  case 0
  then show ?case by (subst directLoop.simps) simp
next
  case (Suc n)
  let ?d = "directStepsAt (wkr tran)"
  let ?c = "\<lparr>from_step = frm, to_step = t, who = target, ttl = 0\<rparr>"
  from Suc.prems(2) have dt: "isDirectStep (wkr tran) t" by (metis funpow_0 zero_less_Suc)
  have stop: "\<not> isDirectStep (wkr (addChanged tran ?c))
                 ((directStepsAt (wkr (addChanged tran ?c)) ^^ n) (?d t))"
    using Suc.prems(1) by (simp add: funpow_swap1)
  have go: "\<forall>i<n. isDirectStep (wkr (addChanged tran ?c))
                 ((directStepsAt (wkr (addChanged tran ?c)) ^^ i) (?d t))"
  proof (intro allI impI)
    fix i assume "i < n"
    then have "Suc i < Suc n" by simp
    with Suc.prems(2) have "isDirectStep (wkr tran) ((?d ^^ Suc i) t)" by blast
    then show "isDirectStep (wkr (addChanged tran ?c))
                 ((directStepsAt (wkr (addChanged tran ?c)) ^^ i) (?d t))"
      by (simp add: funpow_swap1)
  qed
  have shift: "map (hopAt (wkr tran) target t) [0..<Suc n]
      = \<lparr>from_step = t, to_step = ?d t, who = target, ttl = 0\<rparr>
          # map (hopAt (wkr tran) target (?d t)) [0..<n]"
  proof -
    have "[0..<Suc n] = 0 # map Suc [0..<n]"
      by (metis map_Suc_upt upt_conv_Cons zero_less_Suc)
    then show ?thesis
      by (simp add: hopAt_def funpow_swap1 del: upt_Suc)
  qed
  have "directLoop frm t target tran = directLoop t (?d t) target (addChanged tran ?c)"
    using dt by (subst directLoop.simps) simp
  also have "\<dots> = Some (foldl addChanged (addChanged tran ?c)
             (\<lparr>from_step = t, to_step = ?d t, who = target, ttl = 0\<rparr>
                # map (hopAt (wkr (addChanged tran ?c)) target (?d t)) [0..<n]),
           (directStepsAt (wkr (addChanged tran ?c)) ^^ n) (?d t))"
    by (rule Suc.IH [OF stop go])
  finally show ?case
    by (simp add: shift funpow_swap1 del: upt_Suc)
qed

lemma chain_distinct:
  fixes f :: "'a \<Rightarrow> 'a"
  assumes stop: "\<not> P ((f ^^ n) s)" and go: "\<forall>i<n. P ((f ^^ i) s)"
  shows "inj_on (\<lambda>i. (f ^^ i) s) {..<n}"
proof (rule linorder_inj_onI)
  fix i j
  assume ij: "i < j" and i: "i \<in> {..<n}" and j: "j \<in> {..<n}"
  show "(f ^^ i) s \<noteq> (f ^^ j) s"
  proof
    assume eq: "(f ^^ i) s = (f ^^ j) s"
    from j have jn: "j < n" by simp
    have "(f ^^ (n - j + i)) s = (f ^^ (n - j)) ((f ^^ i) s)" by (simp add: funpow_add)
    also have "\<dots> = (f ^^ (n - j)) ((f ^^ j) s)" by (simp add: eq)
    also have "\<dots> = (f ^^ (n - j + j)) s" by (simp add: funpow_add)
    also have "\<dots> = (f ^^ n) s" using jn by simp
    finally have "(f ^^ (n - j + i)) s = (f ^^ n) s" .
    moreover from ij jn have "n - j + i < n" by simp
    ultimately show False using stop go by metis
  qed
qed auto

lemma chain_length_bound:
  fixes f :: "'a \<Rightarrow> 'a"
  assumes stop: "\<not> P ((f ^^ n) s)" and go: "\<forall>i<n. P ((f ^^ i) s)"
    and names: "\<forall>x. P x \<longrightarrow> x \<in> set xs"
  shows "n \<le> length xs"
proof -
  have "(\<lambda>i. (f ^^ i) s) ` {..<n} \<subseteq> set xs" using go names by auto
  then have "card ((\<lambda>i. (f ^^ i) s) ` {..<n}) \<le> card (set xs)"
    by (simp add: card_mono)
  moreover have "card ((\<lambda>i. (f ^^ i) s) ` {..<n}) = n"
    using chain_distinct [OF stop go] by (simp add: card_image)
  ultimately show ?thesis using card_length [of xs] by simp
qed

lemma directLoop_diverges:
  assumes "\<forall>n. isDirectStep (wkr tran) ((directStepsAt (wkr tran) ^^ n) t)"
  shows "directLoop frm t target tran = None"
proof (rule ccontr)
  assume "directLoop frm t target tran \<noteq> None"
  then obtain y where y: "directLoop frm t target tran = Some y" by auto
  have "\<not> (\<forall>n. isDirectStep (wkr tran) ((directStepsAt (wkr tran) ^^ n) t))"
  proof (rule directLoop.raw_induct
      [where P = "\<lambda>frm t target tran y.
          \<not> (\<forall>n. isDirectStep (wkr tran) ((directStepsAt (wkr tran) ^^ n) t))", OF _ y])
    fix loop frm' t' target' tran' y'
    assume ih: "\<And>a b c e z. loop a b c e = Some z \<Longrightarrow>
                 \<not> (\<forall>n. isDirectStep (wkr e) ((directStepsAt (wkr e) ^^ n) b))"
      and step: "(if \<not> isDirectStep (wkr tran') t'
          then Some (addChanged tran'
                 \<lparr>from_step = frm', to_step = t', who = target', ttl = 0\<rparr>, t')
          else loop t' (directStepsAt (wkr tran') t') target'
                 (addChanged tran'
                   \<lparr>from_step = frm', to_step = t', who = target', ttl = 0\<rparr>)) = Some y'"
    show "\<not> (\<forall>n. isDirectStep (wkr tran') ((directStepsAt (wkr tran') ^^ n) t'))"
    proof (cases "isDirectStep (wkr tran') t'")
      case False
      then show ?thesis by (metis funpow_0)
    next
      case True
      with step have "loop t' (directStepsAt (wkr tran') t') target'
                 (addChanged tran'
                   \<lparr>from_step = frm', to_step = t', who = target', ttl = 0\<rparr>) = Some y'"
        by simp
      from ih [OF this] obtain n where
        "\<not> isDirectStep (wkr tran') ((directStepsAt (wkr tran') ^^ n) (directStepsAt (wkr tran') t'))"
        by auto
      then have "\<not> isDirectStep (wkr tran') ((directStepsAt (wkr tran') ^^ Suc n) t')"
        by (simp add: funpow_swap1)
      then show ?thesis by blast
    qed
  qed
  with assms show False by simp
qed


lemma hops_shift:
  "map (hopAt wk target s) [0..<Suc n]
     = \<lparr>from_step = s, to_step = directStepsAt wk s, who = target, ttl = 0\<rparr>
         # map (hopAt wk target (directStepsAt wk s)) [0..<n]"
proof -
  have "[0..<Suc n] = 0 # map Suc [0..<n]"
    by (metis map_Suc_upt upt_conv_Cons zero_less_Suc)
  then show ?thesis
    by (simp add: hopAt_def funpow_swap1 del: upt_Suc)
qed

text \<open>
  C4 (as amended): when the target of a transition is a direct step and the chain of direct
  steps that starts there reaches a step that is not direct after \<open>n\<close> hops, the walk of
  \<open>maybeTriggerDirectSteps\<close> terminates; it calls \<open>addChanged\<close> once per hop, in the
  order of the chain, up to the first step that is not direct; and if every direct step is
  a step of the workflow, the number of hops is at most the number of steps. The loop has
  no bound of its own: the hypothesis that the chain ends is what the workflow validator
  is there to ensure.
\<close>

theorem direct_chain_terminates:
  assumes direct: "isDirectStep (wkr tran) (to_step ctx)"
    and stop: "\<not> isDirectStep (wkr tran) ((directStepsAt (wkr tran) ^^ n) (to_step ctx))"
    and go: "\<forall>i<n. isDirectStep (wkr tran) ((directStepsAt (wkr tran) ^^ i) (to_step ctx))"
    and names: "\<forall>s. isDirectStep (wkr tran) s \<longrightarrow>
                  s \<in> set (map (\<lambda>st. Name (Step st)) (States (state (wkr tran))))"
  shows "0 < n \<and> n \<le> length (States (state (wkr tran)))
     \<and> length (map (hopAt (wkr tran) (who ctx) (to_step ctx)) [0..<n]) = n
     \<and> directLoop (to_step ctx) (directStepsAt (wkr tran) (to_step ctx)) (who ctx) tran
         = Some (foldl addChanged tran (map (hopAt (wkr tran) (who ctx) (to_step ctx)) [0..<n]),
                 (directStepsAt (wkr tran) ^^ n) (to_step ctx))
     \<and> maybeTriggerDirectSteps tran idx ctx
         = Some (case removeFromStep
                        (foldl addChanged tran
                           (map (hopAt (wkr tran) (who ctx) (to_step ctx)) [0..<n]))
                        idx (who ctx) of
                   Inl e \<Rightarrow> Inl e
                 | Inr (changed, tran2) \<Rightarrow>
                     moveToNamed [0..<length (States (state (wkr tran2)))]
                       ((directStepsAt (wkr tran) ^^ n) (to_step ctx)) (who ctx) tran2)"
proof -
  let ?d = "directStepsAt (wkr tran)"
  let ?s = "to_step ctx"
  have pos: "0 < n"
  proof (rule ccontr)
    assume "\<not> 0 < n"
    then have "n = 0" by simp
    with stop direct show False by simp
  qed
  then obtain m where m: "n = Suc m" by (cases n) auto
  have bound: "n \<le> length (States (state (wkr tran)))"
    using chain_length_bound [OF stop go names] by simp
  have stop': "\<not> isDirectStep (wkr tran) ((?d ^^ m) (?d ?s))"
    using stop m by (simp add: funpow_swap1)
  have go': "\<forall>i<m. isDirectStep (wkr tran) ((?d ^^ i) (?d ?s))"
  proof (intro allI impI)
    fix i assume "i < m"
    with m have "Suc i < n" by simp
    with go have "isDirectStep (wkr tran) ((?d ^^ Suc i) ?s)" by blast
    then show "isDirectStep (wkr tran) ((?d ^^ i) (?d ?s))" by (simp add: funpow_swap1)
  qed
  have walk: "directLoop ?s (?d ?s) (who ctx) tran
         = Some (foldl addChanged tran (map (hopAt (wkr tran) (who ctx) ?s) [0..<n]),
                 (?d ^^ n) ?s)"
    using directLoop_walk [OF stop' go', of ?s "who ctx"]
    by (simp add: m hops_shift funpow_swap1 del: upt_Suc)
  have trig: "maybeTriggerDirectSteps tran idx ctx
         = Some (case removeFromStep
                        (foldl addChanged tran (map (hopAt (wkr tran) (who ctx) ?s) [0..<n]))
                        idx (who ctx) of
                   Inl e \<Rightarrow> Inl e
                 | Inr (changed, tran2) \<Rightarrow>
                     moveToNamed [0..<length (States (state (wkr tran2)))]
                       ((?d ^^ n) ?s) (who ctx) tran2)"
    using direct by (simp add: maybeTriggerDirectSteps_def walk)
  have len: "length (map (hopAt (wkr tran) (who ctx) ?s) [0..<n]) = n" by simp
  show ?thesis
    by (intro conjI pos bound len walk trig)
qed

lemma chain_steps:
  "directStepsAt chainWorker ''D1'' = ''D2''" "directStepsAt chainWorker ''D2'' = ''B''"
  "isDirectStep chainWorker ''D1''" "isDirectStep chainWorker ''D2''"
  "\<not> isDirectStep chainWorker ''B''"
  by (simp_all add: directStepsAt_def chainWorker_def)

theorem direct_chain_terminates_witness:
  "isDirectStep (wkr chainTran) (to_step chainCtx)
   \<and> (2 :: nat) \<le> length (States (state (wkr chainTran)))
   \<and> directLoop ''D1'' ''D2'' \<lparr>user = 1, users = None\<rparr> chainTran
       = Some (chainTran\<lparr>changes :=
                 [\<lparr>from_step = ''D1'', to_step = ''D2'', who = \<lparr>user = 0, users = Some {1}\<rparr>, ttl = 0\<rparr>,
                  \<lparr>from_step = ''D2'', to_step = ''B'', who = \<lparr>user = 0, users = Some {1}\<rparr>, ttl = 0\<rparr>],
                crowdChanged := True\<rparr>, ''B'')
   \<and> maybeTriggerDirectSteps chainTran 1 chainCtx
       = Some (Inr (chainTran\<lparr>changes :=
                 [\<lparr>from_step = ''D1'', to_step = ''D2'', who = \<lparr>user = 0, users = Some {1}\<rparr>, ttl = 0\<rparr>,
                  \<lparr>from_step = ''D2'', to_step = ''B'', who = \<lparr>user = 0, users = Some {1}\<rparr>, ttl = 0\<rparr>],
                crowdChanged := True, stepCrowds := [{3}, {}, {}, {1, 2, 4}]\<rparr>))"
proof -
  have w: "wkr chainTran = chainWorker" "to_step chainCtx = ''D1''"
    "who chainCtx = \<lparr>user = 1, users = None\<rparr>"
    by (simp_all add: chainTran_def chainCtx_def)
  have two: "(directStepsAt chainWorker ^^ 2) ''D1'' = ''B''"
    by (simp add: numeral_2_eq_2 chain_steps)
  have direct: "isDirectStep (wkr chainTran) (to_step chainCtx)"
    by (simp add: w chain_steps)
  have stop: "\<not> isDirectStep (wkr chainTran)
                 ((directStepsAt (wkr chainTran) ^^ 2) (to_step chainCtx))"
    by (simp add: w two chain_steps)
  have go: "\<forall>i<2. isDirectStep (wkr chainTran)
                 ((directStepsAt (wkr chainTran) ^^ i) (to_step chainCtx))"
    by (simp add: w less_2_cases_iff chain_steps)
  have names: "\<forall>s. isDirectStep (wkr chainTran) s \<longrightarrow>
                  s \<in> set (map (\<lambda>st. Name (Step st)) (States (state (wkr chainTran))))"
    by (auto simp: w chainWorker_def demoStep_def)
  have hops: "map (hopAt chainWorker \<lparr>user = 1, users = None\<rparr> ''D1'') [0..<2]
      = [\<lparr>from_step = ''D1'', to_step = ''D2'', who = \<lparr>user = 1, users = None\<rparr>, ttl = 0\<rparr>,
         \<lparr>from_step = ''D2'', to_step = ''B'', who = \<lparr>user = 1, users = None\<rparr>, ttl = 0\<rparr>]"
    by (simp add: hopAt_def upt_rec numeral_2_eq_2 chain_steps)
  have added: "foldl addChanged chainTran
        [\<lparr>from_step = ''D1'', to_step = ''D2'', who = \<lparr>user = 1, users = None\<rparr>, ttl = 0\<rparr>,
         \<lparr>from_step = ''D2'', to_step = ''B'', who = \<lparr>user = 1, users = None\<rparr>, ttl = 0\<rparr>]
      = chainTran\<lparr>changes :=
                 [\<lparr>from_step = ''D1'', to_step = ''D2'', who = \<lparr>user = 0, users = Some {1}\<rparr>, ttl = 0\<rparr>,
                  \<lparr>from_step = ''D2'', to_step = ''B'', who = \<lparr>user = 0, users = Some {1}\<rparr>, ttl = 0\<rparr>],
                crowdChanged := True\<rparr>"
    by (simp add: addChanged_def changedCtx_add_def whoSet_def chainTran_def)
  note t = direct_chain_terminates [OF direct stop go names, of 1]
  from t have b: "(2 :: nat) \<le> length (States (state (wkr chainTran)))" by simp
  from t have l: "directLoop ''D1'' ''D2'' \<lparr>user = 1, users = None\<rparr> chainTran
       = Some (chainTran\<lparr>changes :=
                 [\<lparr>from_step = ''D1'', to_step = ''D2'', who = \<lparr>user = 0, users = Some {1}\<rparr>, ttl = 0\<rparr>,
                  \<lparr>from_step = ''D2'', to_step = ''B'', who = \<lparr>user = 0, users = Some {1}\<rparr>, ttl = 0\<rparr>],
                crowdChanged := True\<rparr>, ''B'')"
    by (simp only: w chain_steps two hops added)
  have m: "maybeTriggerDirectSteps chainTran 1 chainCtx
       = Some (Inr (chainTran\<lparr>changes :=
                 [\<lparr>from_step = ''D1'', to_step = ''D2'', who = \<lparr>user = 0, users = Some {1}\<rparr>, ttl = 0\<rparr>,
                  \<lparr>from_step = ''D2'', to_step = ''B'', who = \<lparr>user = 0, users = Some {1}\<rparr>, ttl = 0\<rparr>],
                crowdChanged := True, stepCrowds := [{3}, {}, {}, {1, 2, 4}]\<rparr>))"
    using t
    by (simp only: w chain_steps two hops added)
       (simp add: removeFromStep_def moveToNamed.simps moveToStep_def chainTran_def
          chainWorker_def stepName_def demoStep_def upt_rec insert_commute)
  show ?thesis by (intro conjI direct b l m)
qed

lemma loop_steps: "(directStepsAt loopWorker ^^ n) ''D2'' = (if even n then ''D2'' else ''D1'')"
  by (induction n) (simp_all add: directStepsAt_def loopWorker_def)

text \<open>
  C4 as stated speaks of every transition into a direct step. When \<open>D1\<close> and \<open>D2\<close>
  route to each other the walk never returns.
\<close>

theorem direct_chain_cycle_counterexample:
  "isDirectStep (wkr loopTran) ''D1''
   \<and> maybeTriggerDirectSteps loopTran 1 chainCtx = None"
proof -
  have w: "wkr loopTran = loopWorker" by (simp add: loopTran_def)
  have d: "isDirectStep loopWorker ''D1''" "isDirectStep loopWorker ''D2''"
    "directStepsAt loopWorker ''D1'' = ''D2''"
    by (simp_all add: loopWorker_def chainWorker_def directStepsAt_def)
  have "\<forall>n. isDirectStep (wkr loopTran) ((directStepsAt (wkr loopTran) ^^ n) ''D2'')"
    by (simp add: w loop_steps d)
  from directLoop_diverges [OF this]
  have "directLoop ''D1'' ''D2'' \<lparr>user = 1, users = None\<rparr> loopTran = None" .
  then show ?thesis
    by (simp add: maybeTriggerDirectSteps_def w d chainCtx_def)
qed

subsection \<open>stepChanged\<close>

lemma crowdsWithin_refl: "crowdsWithin W a a"
  by (simp add: crowdsWithin_def)

lemma crowdsWithin_trans:
  "crowdsWithin W a b \<Longrightarrow> crowdsWithin W b c \<Longrightarrow> crowdsWithin W a c"
  unfolding crowdsWithin_def by (intro conjI allI) (simp_all, blast)

lemma crowdsWithin_addChanged: "crowdsWithin W a (addChanged a c)"
  by (simp add: crowdsWithin_def)

lemma card_Un_bitmap: "card (A \<union> B) = card A \<longleftrightarrow> B \<subseteq> A" for A B :: bitmap
proof
  assume "card (A \<union> B) = card A"
  then have "A = A \<union> B" by (intro card_subset_eq) simp_all
  then show "B \<subseteq> A" by blast
next
  assume "B \<subseteq> A"
  then show "card (A \<union> B) = card A" by (simp add: Un_absorb2)
qed

lemma card_bitmap_Un: "card A = card (A \<union> B) \<longleftrightarrow> B \<subseteq> A" for A B :: bitmap
  using card_Un_bitmap [of A B] by auto

lemma removeFromStep_Inr:
  assumes "removeFromStep tran idx target = Inr (c, tran')"
  shows "crowdsWithin W tran tran'" and "changes tran' = changes tran"
    and "j \<noteq> idx \<Longrightarrow> stepCrowds tran' ! j = stepCrowds tran ! j"
proof -
  from assms have r: "idx < length (stepCrowds tran)"
    by (simp add: removeFromStep_def split: if_splits)
  from assms r obtain v where v: "v \<subseteq> stepCrowds tran ! idx"
    and t: "tran' = tran \<or> tran' = tran\<lparr>stepCrowds := (stepCrowds tran)[idx := v]\<rparr>"
    by (auto simp: removeFromStep_def Let_def BMAndnot_def split: if_splits option.splits)
  from t show "changes tran' = changes tran" by auto
  from t show "j \<noteq> idx \<Longrightarrow> stepCrowds tran' ! j = stepCrowds tran ! j" by auto
  have "stepCrowds tran' ! i \<subseteq> stepCrowds tran ! i \<union> W" for i
    using t v r by (cases "i = idx") auto
  with t show "crowdsWithin W tran tran'" by (auto simp: crowdsWithin_def)
qed

lemma moveToStep_Inr:
  assumes "moveToStep tran idx target = Inr (c, tran')"
  shows "crowdsWithin (whoSet target) tran tran'" and "changes tran' = changes tran"
    and "j \<noteq> idx \<Longrightarrow> stepCrowds tran' ! j = stepCrowds tran ! j"
proof -
  from assms have r: "idx < length (stepCrowds tran)"
    by (simp add: moveToStep_def split: if_splits)
  from assms r obtain v where v: "v \<subseteq> stepCrowds tran ! idx \<union> whoSet target"
    and t: "tran' = tran \<or> tran' = tran\<lparr>stepCrowds := (stepCrowds tran)[idx := v]\<rparr>"
    by (auto simp: moveToStep_def Let_def BMOr_def whoSet_def split: if_splits option.splits)
  from t show "changes tran' = changes tran" by auto
  from t show "j \<noteq> idx \<Longrightarrow> stepCrowds tran' ! j = stepCrowds tran ! j" by auto
  have "stepCrowds tran' ! i \<subseteq> stepCrowds tran ! i \<union> whoSet target" for i
    using t v r by (cases "i = idx") auto
  with t show "crowdsWithin (whoSet target) tran tran'" by (auto simp: crowdsWithin_def)
qed

lemma moveToStep_bulk_contained:
  assumes "users target = Some us" and "idx < length (stepCrowds tran)"
    and "us \<subseteq> stepCrowds tran ! idx"
  shows "moveToStep tran idx target = Inr (False, tran)"
  using assms
  by (simp add: moveToStep_def BMOr_def GetCardinality_def card_bitmap_Un Let_def)

lemma moveToStep_bulk_changed:
  assumes "users target = Some us" and "moveToStep tran idx target = Inr (True, tran')"
  shows "\<not> us \<subseteq> stepCrowds tran ! idx"
  using assms
  by (auto simp: moveToStep_def BMOr_def GetCardinality_def card_bitmap_Un Let_def
      split: if_splits)

lemma directLoop_keeps:
  assumes "directLoop frm t target tran = Some y"
  shows "wkr (fst y) = wkr tran \<and> stepCrowds (fst y) = stepCrowds tran
         \<and> totalCrowds (fst y) = totalCrowds tran"
proof (rule directLoop.raw_induct
    [where P = "\<lambda>frm t target tran y. wkr (fst y) = wkr tran
        \<and> stepCrowds (fst y) = stepCrowds tran \<and> totalCrowds (fst y) = totalCrowds tran",
     OF _ assms])
  fix loop frm' t' target' tran' y'
  assume ih: "\<And>a b c e z. loop a b c e = Some z \<Longrightarrow>
       wkr (fst z) = wkr e \<and> stepCrowds (fst z) = stepCrowds e
       \<and> totalCrowds (fst z) = totalCrowds e"
    and step: "(if \<not> isDirectStep (wkr tran') t'
          then Some (addChanged tran'
                 \<lparr>from_step = frm', to_step = t', who = target', ttl = 0\<rparr>, t')
          else loop t' (directStepsAt (wkr tran') t') target'
                 (addChanged tran'
                   \<lparr>from_step = frm', to_step = t', who = target', ttl = 0\<rparr>)) = Some y'"
  show "wkr (fst y') = wkr tran' \<and> stepCrowds (fst y') = stepCrowds tran'
         \<and> totalCrowds (fst y') = totalCrowds tran'"
  proof (cases "isDirectStep (wkr tran') t'")
    case False
    with step show ?thesis by auto
  next
    case True
    with step have "loop t' (directStepsAt (wkr tran') t') target'
                 (addChanged tran'
                   \<lparr>from_step = frm', to_step = t', who = target', ttl = 0\<rparr>) = Some y'"
      by simp
    from ih [OF this] show ?thesis by simp
  qed
qed

lemma directLoop_within:
  "directLoop frm t target tran = Some (tran', l) \<Longrightarrow> crowdsWithin W tran tran'"
  using directLoop_keeps [of frm t target tran "(tran', l)"] by (simp add: crowdsWithin_def)

lemma moveToNamed_within:
  "moveToNamed idxs t target tran = Inr tran' \<Longrightarrow> crowdsWithin (whoSet target) tran tran'"
proof (induction idxs)
  case Nil
  then show ?case by (simp add: crowdsWithin_refl)
next
  case (Cons idx idxs)
  show ?case
  proof (cases "stepName (wkr tran) idx = t")
    case True
    with Cons.prems obtain c where "moveToStep tran idx target = Inr (c, tran')"
      by (auto split: sum.splits)
    then show ?thesis by (rule moveToStep_Inr(1))
  next
    case False
    with Cons show ?thesis by simp
  qed
qed

lemma maybeTriggerDirectSteps_within:
  assumes "maybeTriggerDirectSteps tran idx ctx = Some (Inr tran')"
  shows "crowdsWithin (whoSet (who ctx)) tran tran'"
proof (cases "isDirectStep (wkr tran) (to_step ctx)")
  case False
  with assms show ?thesis by (simp add: maybeTriggerDirectSteps_def crowdsWithin_refl)
next
  case True
  with assms obtain t1 l where
    w: "directLoop (to_step ctx) (directStepsAt (wkr tran) (to_step ctx)) (who ctx) tran
          = Some (t1, l)"
    and rest: "(case removeFromStep t1 idx (who ctx) of
                 Inl e \<Rightarrow> Inl e
               | Inr (changed, tran2) \<Rightarrow>
                   moveToNamed [0..<length (States (state (wkr tran2)))] l (who ctx) tran2)
               = Inr tran'"
    by (auto simp: maybeTriggerDirectSteps_def split: option.splits)
  from rest obtain c t2 where rm: "removeFromStep t1 idx (who ctx) = Inr (c, t2)"
    and mv: "moveToNamed [0..<length (States (state (wkr t2)))] l (who ctx) t2 = Inr tran'"
    by (auto split: sum.splits)
  from directLoop_within [OF w] removeFromStep_Inr(1) [OF rm] moveToNamed_within [OF mv]
  show ?thesis by (blast intro: crowdsWithin_trans)
qed


lemma stepChangedLoop_Cons_cases:
  assumes "stepChangedLoop (idx # idxs) ctx tran = Some (Inr tran')"
  obtains (from_case) c t1 where "stepName (wkr tran) idx = from_step ctx"
      "removeFromStep tran idx (who ctx) = Inr (c, t1)"
      "stepChangedLoop idxs ctx t1 = Some (Inr tran')"
    | (grown) t1 t2 where "stepName (wkr tran) idx \<noteq> from_step ctx"
      "stepName (wkr tran) idx = to_step ctx"
      "moveToStep tran idx (who ctx) = Inr (True, t1)"
      "maybeTriggerDirectSteps
         (addChanged t1 (ctx\<lparr>ttl := TTL (Step (States (state (wkr t1)) ! idx))\<rparr>)) idx
         (ctx\<lparr>ttl := TTL (Step (States (state (wkr t1)) ! idx))\<rparr>) = Some (Inr t2)"
      "stepChangedLoop idxs (ctx\<lparr>ttl := TTL (Step (States (state (wkr t1)) ! idx))\<rparr>) t2
         = Some (Inr tran')"
    | (same) t1 where "stepName (wkr tran) idx \<noteq> from_step ctx"
      "stepName (wkr tran) idx = to_step ctx"
      "moveToStep tran idx (who ctx) = Inr (False, t1)"
      "stepChangedLoop idxs (ctx\<lparr>ttl := TTL (Step (States (state (wkr t1)) ! idx))\<rparr>) t1
         = Some (Inr tran')"
    | (other) "stepName (wkr tran) idx \<noteq> from_step ctx"
      "stepName (wkr tran) idx \<noteq> to_step ctx"
      "stepChangedLoop idxs ctx tran = Some (Inr tran')"
proof (cases "stepName (wkr tran) idx = from_step ctx")
  case True
  with assms obtain c t1 where "removeFromStep tran idx (who ctx) = Inr (c, t1)"
    "stepChangedLoop idxs ctx t1 = Some (Inr tran')"
    by (auto split: sum.splits)
  with True show ?thesis by (rule from_case)
next
  case nf: False
  show ?thesis
  proof (cases "stepName (wkr tran) idx = to_step ctx")
    case False
    with nf assms have "stepChangedLoop idxs ctx tran = Some (Inr tran')" by simp
    with nf False show ?thesis by (rule other)
  next
    case True
    with nf assms obtain c t1 where mv: "moveToStep tran idx (who ctx) = Inr (c, t1)"
      by (auto split: sum.splits)
    show ?thesis
    proof (cases c)
      case False
      with nf True assms mv
      have "stepChangedLoop idxs (ctx\<lparr>ttl := TTL (Step (States (state (wkr t1)) ! idx))\<rparr>) t1
         = Some (Inr tran')"
        by (simp add: Let_def)
      with nf True mv False show ?thesis using same by simp
    next
      case c: True
      with nf True assms mv obtain t2 where
        "maybeTriggerDirectSteps
           (addChanged t1 (ctx\<lparr>ttl := TTL (Step (States (state (wkr t1)) ! idx))\<rparr>)) idx
           (ctx\<lparr>ttl := TTL (Step (States (state (wkr t1)) ! idx))\<rparr>) = Some (Inr t2)"
        "stepChangedLoop idxs (ctx\<lparr>ttl := TTL (Step (States (state (wkr t1)) ! idx))\<rparr>) t2
           = Some (Inr tran')"
        by (auto simp: Let_def split: option.splits sum.splits)
      with nf True mv c show ?thesis using grown by simp
    qed
  qed
qed

lemma stepChangedLoop_within:
  "stepChangedLoop idxs ctx tran = Some (Inr tran') \<Longrightarrow>
   crowdsWithin (whoSet (who ctx)) tran tran'"
proof (induction idxs arbitrary: ctx tran)
  case Nil
  then show ?case by (simp add: crowdsWithin_refl)
next
  case (Cons idx idxs)
  from Cons.prems show ?case
  proof (cases rule: stepChangedLoop_Cons_cases)
    case (from_case c t1)
    from removeFromStep_Inr(1) [OF from_case(2)] Cons.IH [OF from_case(3)]
    show ?thesis by (rule crowdsWithin_trans)
  next
    case (grown t1 t2)
    let ?ctx = "ctx\<lparr>ttl := TTL (Step (States (state (wkr t1)) ! idx))\<rparr>"
    have a: "crowdsWithin (whoSet (who ctx)) tran t1" by (rule moveToStep_Inr(1) [OF grown(3)])
    have b: "crowdsWithin (whoSet (who ctx)) t1 (addChanged t1 ?ctx)"
      by (rule crowdsWithin_addChanged)
    have c: "crowdsWithin (whoSet (who ctx)) (addChanged t1 ?ctx) t2"
      using maybeTriggerDirectSteps_within [OF grown(4)] by simp
    have d: "crowdsWithin (whoSet (who ctx)) t2 tran'"
      using Cons.IH [OF grown(5)] by simp
    from a b c d show ?thesis by (blast intro: crowdsWithin_trans)
  next
    case (same t1)
    have a: "crowdsWithin (whoSet (who ctx)) tran t1" by (rule moveToStep_Inr(1) [OF same(3)])
    have d: "crowdsWithin (whoSet (who ctx)) t1 tran'"
      using Cons.IH [OF same(4)] by simp
    from a d show ?thesis by (rule crowdsWithin_trans)
  next
    case other
    from Cons.IH [OF other(3)] show ?thesis .
  qed
qed

lemma stepChangedLoop_no_growth:
  assumes "users (who ctx) = Some W"
    and "\<forall>idx \<in> set idxs. stepName (wkr tran) idx = to_step ctx
            \<and> stepName (wkr tran) idx \<noteq> from_step ctx \<and> idx < length (stepCrowds tran)
            \<longrightarrow> W \<subseteq> stepCrowds tran ! idx"
    and "stepChangedLoop idxs ctx tran = Some (Inr tran')"
  shows "changes tran' = changes tran"
  using assms
proof (induction idxs arbitrary: ctx tran)
  case Nil
  then show ?case by simp
next
  case (Cons idx idxs)
  from Cons.prems(3) show ?case
  proof (cases rule: stepChangedLoop_Cons_cases)
    case (from_case c t1)
    note rm = removeFromStep_Inr [OF from_case(2)]
    from rm(1) [of "{}"] have wk: "wkr t1 = wkr tran"
      and len: "length (stepCrowds t1) = length (stepCrowds tran)"
      by (simp_all add: crowdsWithin_def)
    have "\<forall>j \<in> set idxs. stepName (wkr t1) j = to_step ctx
            \<and> stepName (wkr t1) j \<noteq> from_step ctx \<and> j < length (stepCrowds t1)
            \<longrightarrow> W \<subseteq> stepCrowds t1 ! j"
    proof (intro ballI impI)
      fix j
      assume j: "j \<in> set idxs"
        and nm: "stepName (wkr t1) j = to_step ctx \<and> stepName (wkr t1) j \<noteq> from_step ctx
                 \<and> j < length (stepCrowds t1)"
      with from_case(1) wk have "j \<noteq> idx" by auto
      then have "stepCrowds t1 ! j = stepCrowds tran ! j" by (rule rm(3))
      with Cons.prems(2) j nm wk len show "W \<subseteq> stepCrowds t1 ! j" by auto
    qed
    from Cons.IH [OF Cons.prems(1) this from_case(3)] rm(2) show ?thesis by simp
  next
    case (grown t1 t2)
    from grown(3) have "idx < length (stepCrowds tran)"
      by (simp add: moveToStep_def split: if_splits)
    with Cons.prems(2) grown(1,2) have "W \<subseteq> stepCrowds tran ! idx" by simp
    with moveToStep_bulk_changed [OF Cons.prems(1) grown(3)] show ?thesis by simp
  next
    case (same t1)
    from same(3) have r: "idx < length (stepCrowds tran)"
      by (simp add: moveToStep_def split: if_splits)
    with Cons.prems(2) same(1,2) have sub: "W \<subseteq> stepCrowds tran ! idx" by simp
    from moveToStep_bulk_contained [OF Cons.prems(1) r sub] same(3)
    have t1: "t1 = tran" by simp
    let ?ctx = "ctx\<lparr>ttl := TTL (Step (States (state (wkr t1)) ! idx))\<rparr>"
    have u: "users (who ?ctx) = Some W" using Cons.prems(1) by simp
    have g: "\<forall>j \<in> set idxs. stepName (wkr t1) j = to_step ?ctx
            \<and> stepName (wkr t1) j \<noteq> from_step ?ctx \<and> j < length (stepCrowds t1)
            \<longrightarrow> W \<subseteq> stepCrowds t1 ! j"
      using Cons.prems(2) t1 by auto
    from Cons.IH [OF u g same(4)] t1 show ?thesis by simp
  next
    case other
    from Cons.prems(2) have "\<forall>j \<in> set idxs. stepName (wkr tran) j = to_step ctx
            \<and> stepName (wkr tran) j \<noteq> from_step ctx \<and> j < length (stepCrowds tran)
            \<longrightarrow> W \<subseteq> stepCrowds tran ! j"
      by auto
    from Cons.IH [OF Cons.prems(1) this other(3)] show ?thesis .
  qed
qed

text \<open>
  C6: when \<open>stepChanged\<close> is given a bulk user set \<open>U\<close> and returns, every step crowd
  holds only users it held before or users of \<open>U\<close> that are in the transaction's total
  crowd (the set is intersected with \<open>totalCrowds\<close> before anything is moved), and the
  list of changes differs from the one before only if some step named as the target had
  its membership grow, that is, did not already hold all of \<open>U \<inter> totalCrowds\<close>.
\<close>

theorem stepChanged_bulk:
  assumes bulk: "users (who ctx) = Some U"
    and res: "stepChanged tran ctx = Some (Inr tran')"
  shows "totalCrowds tran' = totalCrowds tran
     \<and> length (stepCrowds tran') = length (stepCrowds tran)
     \<and> (\<forall>i. stepCrowds tran' ! i \<subseteq> stepCrowds tran ! i \<union> (U \<inter> totalCrowds tran))
     \<and> (changes tran' \<noteq> changes tran \<longrightarrow>
          (\<exists>idx < length (States (state (wkr tran))).
              stepName (wkr tran) idx = to_step ctx
              \<and> stepName (wkr tran) idx \<noteq> from_step ctx
              \<and> idx < length (stepCrowds tran)
              \<and> \<not> U \<inter> totalCrowds tran \<subseteq> stepCrowds tran ! idx))"
proof -
  let ?W = "U \<inter> totalCrowds tran"
  let ?ctx = "ctx\<lparr>who := (who ctx)\<lparr>users := Some ?W\<rparr>\<rparr>"
  from bulk res
  have loop: "stepChangedLoop [0..<length (States (state (wkr tran)))] ?ctx tran
                = Some (Inr tran')"
    by (simp add: stepChanged_def)
  have w: "whoSet (who ?ctx) = ?W" by (simp add: whoSet_def)
  from stepChangedLoop_within [OF loop] w
  have within: "crowdsWithin ?W tran tran'" by simp
  have grow: "\<exists>idx < length (States (state (wkr tran))).
              stepName (wkr tran) idx = to_step ctx
              \<and> stepName (wkr tran) idx \<noteq> from_step ctx
              \<and> idx < length (stepCrowds tran)
              \<and> \<not> ?W \<subseteq> stepCrowds tran ! idx"
    if diff: "changes tran' \<noteq> changes tran"
  proof (rule ccontr)
    assume none: "\<not> (\<exists>idx < length (States (state (wkr tran))).
              stepName (wkr tran) idx = to_step ctx
              \<and> stepName (wkr tran) idx \<noteq> from_step ctx
              \<and> idx < length (stepCrowds tran)
              \<and> \<not> ?W \<subseteq> stepCrowds tran ! idx)"
    have u: "users (who ?ctx) = Some ?W" by simp
    have g: "\<forall>idx \<in> set [0..<length (States (state (wkr tran)))].
               stepName (wkr tran) idx = to_step ?ctx
               \<and> stepName (wkr tran) idx \<noteq> from_step ?ctx \<and> idx < length (stepCrowds tran)
               \<longrightarrow> ?W \<subseteq> stepCrowds tran ! idx"
      using none by auto
    from stepChangedLoop_no_growth [OF u g loop] diff show False by simp
  qed
  from within have a: "totalCrowds tran' = totalCrowds tran"
    and b: "length (stepCrowds tran') = length (stepCrowds tran)"
    and c: "\<forall>i. stepCrowds tran' ! i \<subseteq> stepCrowds tran ! i \<union> ?W"
    by (simp_all add: crowdsWithin_def)
  from grow have d: "changes tran' \<noteq> changes tran \<longrightarrow>
          (\<exists>idx < length (States (state (wkr tran))).
              stepName (wkr tran) idx = to_step ctx
              \<and> stepName (wkr tran) idx \<noteq> from_step ctx
              \<and> idx < length (stepCrowds tran)
              \<and> \<not> ?W \<subseteq> stepCrowds tran ! idx)" by (rule impI)
  show ?thesis by (intro conjI a b c d)
qed


lemma demo_scope: "({1, 9} :: bitmap) \<inter> {1, 2, 3, 4} = {1}"
  by auto

lemma demo_remove: "removeFromStep demoTran 0 \<lparr>user = 0, users = Some {1}\<rparr>
     = Inr (False, demoTran\<lparr>stepCrowds := [{3}, {2, 4}]\<rparr>)"
  by (simp add: removeFromStep_def demoTran_def BMAndnot_def GetCardinality_def insert_Diff_if)

lemma demo_move:
  "moveToStep (demoTran\<lparr>stepCrowds := [{3}, {2, 4}]\<rparr>) (Suc 0) \<lparr>user = 0, users = Some {1}\<rparr>
     = Inr (True, demoTran\<lparr>stepCrowds := [{3}, {1, 2, 4}]\<rparr>)"
  by (simp add: moveToStep_def demoTran_def BMOr_def GetCardinality_def insert_commute)

lemma demo_names: "stepName demoWorker 0 = ''A''" "stepName demoWorker (Suc 0) = ''B''"
  "length (States (state demoWorker)) = 2" "wkr demoTran = demoWorker"
  by (simp_all add: stepName_def demoWorker_def demoStepA_def demoStepB_def demoTran_def)

lemma demo_stepChanged: "stepChanged demoTran demoMove = Some (Inr movedTran)"
proof -
  have u: "[0..<2] = [0, Suc 0]" by (simp add: upt_rec numeral_2_eq_2)
  have t: "totalCrowds demoTran = {1, 2, 3, 4}" by (simp add: demoTran_def)
  have w: "wkr (demoTran\<lparr>stepCrowds := [{3}, {2, 4}]\<rparr>) = demoWorker"
    "wkr (demoTran\<lparr>stepCrowds := [{3}, {1, 2, 4}]\<rparr>) = demoWorker"
    by (simp_all add: demoTran_def)
  have nd: "\<not> isDirectStep demoWorker s" for s by (simp add: demoWorker_def)
  show ?thesis
    by (simp add: stepChanged_def demoMove_def demo_names u t demo_scope demo_remove demo_move
          w maybeTriggerDirectSteps_def nd)
       (simp add: addChanged_def changedCtx_add_def whoSet_def movedTran_def demoTran_def
          demoWorker_def demoStepB_def)
qed

theorem stepChanged_bulk_witness:
  "users (who demoMove) = Some {1, 9}
   \<and> stepChanged demoTran demoMove = Some (Inr movedTran)
   \<and> totalCrowds movedTran = totalCrowds demoTran
   \<and> stepCrowds movedTran = [{3}, {1, 2, 4}]
   \<and> (\<exists>idx < length (States (state (wkr demoTran))).
         stepName (wkr demoTran) idx = to_step demoMove
         \<and> stepName (wkr demoTran) idx \<noteq> from_step demoMove
         \<and> idx < length (stepCrowds demoTran)
         \<and> \<not> {1, 9} \<inter> totalCrowds demoTran \<subseteq> stepCrowds demoTran ! idx)"
proof -
  have bulk: "users (who demoMove) = Some {1, 9}" by (simp add: demoMove_def)
  have diff: "changes movedTran \<noteq> changes demoTran"
    by (simp add: movedTran_def demoTran_def)
  note t = stepChanged_bulk [OF bulk demo_stepChanged]
  have a: "totalCrowds movedTran = totalCrowds demoTran" by (rule t [THEN conjunct1])
  have s: "stepCrowds movedTran = [{3}, {1, 2, 4}]" by (simp add: movedTran_def)
  have g: "\<exists>idx < length (States (state (wkr demoTran))).
         stepName (wkr demoTran) idx = to_step demoMove
         \<and> stepName (wkr demoTran) idx \<noteq> from_step demoMove
         \<and> idx < length (stepCrowds demoTran)
         \<and> \<not> {1, 9} \<inter> totalCrowds demoTran \<subseteq> stepCrowds demoTran ! idx"
    by (rule t [THEN conjunct2, THEN conjunct2, THEN conjunct2, THEN mp, OF diff])
  show ?thesis by (intro conjI bulk demo_stepChanged a s g)
qed

subsection \<open>doUpdateCrowd\<close>

lemma length_updateStepCrowds:
  "length (updateStepCrowds k a t scs) = length scs"
  by (induction scs arbitrary: k) simp_all

lemma nth_updateStepCrowds:
  "i < length scs \<Longrightarrow>
   updateStepCrowds k a t scs ! i = (if k + i = 0 then scs ! i \<union> a else scs ! i) \<inter> t"
proof (induction scs arbitrary: k i)
  case Nil
  then show ?case by simp
next
  case (Cons sc scs)
  show ?case
  proof (cases i)
    case 0
    then show ?thesis by simp
  next
    case (Suc j)
    with Cons.prems have "j < length scs" by simp
    from Cons.IH [OF this, of "Suc k"] Suc show ?thesis by simp
  qed
qed

lemma demoParse_update: "demoParse [2, 3, 4, 5] = Some {2, 3, 4, 5}"
  by (simp add: demoParse_def)

lemma demo_totals_differ: "({1, 2, 3, 4} :: bitmap) \<noteq> {2, 3, 4, 5}"
proof
  assume "({1, 2, 3, 4} :: bitmap) = {2, 3, 4, 5}"
  moreover have "(1 :: 32 word) \<in> {1, 2, 3, 4}" by simp
  ultimately have "(1 :: 32 word) \<in> {2, 3, 4, 5}" by simp
  then show False by simp
qed

text \<open>
  C1 (as amended): for a transaction whose sticky \<open>err\<close> is not set and an UpdateCrowd item
  whose bytes parse to \<open>newTotal\<close>, \<open>doUpdateCrowd\<close> sets the total crowd to \<open>newTotal\<close>,
  adds the users of \<open>newTotal\<close> that were not in the old total to step 0 and to no other
  step, intersects every step crowd (step 0 included) with \<open>newTotal\<close>, and sets
  \<open>crowdChanged\<close>.
\<close>

theorem doUpdateCrowd_effect:
  assumes "err tran = None" and "item_value it = Bytes crowd"
    and "MustParseBM crowd = Some newTotal"
  shows "\<exists>tran'. doUpdateCrowd MustParseBM tran it = Inr tran'
      \<and> totalCrowds tran' = newTotal
      \<and> length (stepCrowds tran') = length (stepCrowds tran)
      \<and> (\<forall>idx < length (stepCrowds tran). stepCrowds tran' ! idx =
            (if idx = 0 then (stepCrowds tran ! 0 \<union> (newTotal - totalCrowds tran)) \<inter> newTotal
             else stepCrowds tran ! idx \<inter> newTotal))
      \<and> crowdChanged tran'"
  using assms
  by (simp add: doUpdateCrowd_def collectCB_def Let_def length_updateStepCrowds
      nth_updateStepCrowds split: option.splits)

text \<open>
  Scenario (b) of the specification: the new total \<open>{2, 3, 4, 5}\<close> turns step \<open>A\<close> into
  \<open>{3, 5}\<close> and leaves step \<open>B\<close> at \<open>{2, 4}\<close>.
\<close>

theorem doUpdateCrowd_effect_witness:
  "err demoTran = None \<and> item_value demoUpdate = Bytes [2, 3, 4, 5]
   \<and> demoParse [2, 3, 4, 5] = Some {2, 3, 4, 5}
   \<and> (\<exists>tran'. doUpdateCrowd demoParse demoTran demoUpdate = Inr tran'
        \<and> totalCrowds tran' = {2, 3, 4, 5}
        \<and> stepCrowds tran' ! 0 = {3, 5} \<and> stepCrowds tran' ! 1 = {2, 4}
        \<and> crowdChanged tran')"
proof -
  have h1: "err demoTran = None" by (simp add: demoTran_def)
  have h2: "item_value demoUpdate = Bytes [2, 3, 4, 5]" by (simp add: demoUpdate_def)
  have s0: "(stepCrowds demoTran ! 0 \<union> ({2, 3, 4, 5} - totalCrowds demoTran)) \<inter> {2, 3, 4, 5}
            = {3, 5}"
    by (auto simp: demoTran_def)
  have s1: "stepCrowds demoTran ! 1 \<inter> {2, 3, 4, 5} = {2, 4}"
    by (auto simp: demoTran_def)
  have len: "length (stepCrowds demoTran) = 2" by (simp add: demoTran_def)
  from doUpdateCrowd_effect [of demoTran demoUpdate "[2, 3, 4, 5]" demoParse "{2, 3, 4, 5}"]
    h1 h2 demoParse_update
  obtain tran' where r: "doUpdateCrowd demoParse demoTran demoUpdate = Inr tran'"
    "totalCrowds tran' = {2, 3, 4, 5}"
    "\<forall>idx < length (stepCrowds demoTran). stepCrowds tran' ! idx =
       (if idx = 0
        then (stepCrowds demoTran ! 0 \<union> ({2, 3, 4, 5} - totalCrowds demoTran)) \<inter> {2, 3, 4, 5}
        else stepCrowds demoTran ! idx \<inter> {2, 3, 4, 5})"
    "crowdChanged tran'" by blast
  from r(3) len s0 have a0: "stepCrowds tran' ! 0 = {3, 5}" by simp
  from r(3) len s1 have a1: "stepCrowds tran' ! 1 = {2, 4}" by simp
  from h1 h2 demoParse_update r(1,2,4) a0 a1 show ?thesis by blast
qed

text \<open>
  C1 as stated speaks of every transaction. A transaction whose \<open>err\<close> is set keeps its
  total crowd and its flag: the same item leaves the total at \<open>{1, 2, 3, 4}\<close>.
\<close>

theorem doUpdateCrowd_sticky_counterexample:
  "demoParse [2, 3, 4, 5] = Some {2, 3, 4, 5}
   \<and> doUpdateCrowd demoParse failedTran demoUpdate = Inr (failedTran\<lparr>cbs := [7]\<rparr>)
   \<and> totalCrowds (failedTran\<lparr>cbs := [7]\<rparr>) \<noteq> {2, 3, 4, 5}
   \<and> \<not> crowdChanged (failedTran\<lparr>cbs := [7]\<rparr>)"
  using demo_totals_differ
  by (simp add: demoParse_def doUpdateCrowd_def collectCB_def demoTran_def failedTran_def
      demoUpdate_def)

subsection \<open>The sticky error\<close>

lemma doStepTimerEvent_sets_err:
  assumes "err tran = None" and "item_value it = IntValue (int idx)"
    and "idx < length (States (state (wkr tran)))"
    and "Type (Execution (Step (States (state (wkr tran)) ! idx))) = Timer"
    and "steps (Name (Step (States (state (wkr tran)) ! idx))) = Some execute"
    and "execute (\<lparr>evTenantID = TenantID (state (wkr tran)),
                   evWorkflowID = WorkflowID (state (wkr tran)),
                   evInstanceID = InstanceID (state (wkr tran)), UserID = 0\<rparr>, idx)
           tran \<lparr>user = 0, users = None\<rparr> = (Some e, tran')"
  shows "doStepTimerEvent steps tran it = Inr (tran'\<lparr>err := Some e\<rparr>, [])"
  using assms by (simp add: doStepTimerEvent_def Let_def)

lemma doUpdateCrowd_bad_payload:
  assumes "err tran = None" and "item_value it = Bytes crowd" and "MustParseBM crowd = None"
  shows "doUpdateCrowd MustParseBM tran it = Inl (Panic ''parse bitmap'')"
  using assms by (simp add: doUpdateCrowd_def collectCB_def Let_def split: option.splits)

text \<open>
  C8: once the transaction's \<open>err\<close> is set, \<open>doStepTimerEvent\<close>, \<open>doStepUserEvents\<close> and
  \<open>doUpdateCrowd\<close> leave the total crowd and every step crowd as they are (the error stays
  set, so the same holds for every later call of the tick); \<open>doStepUserEvents\<close> and
  \<open>doUpdateCrowd\<close> still append the item's callback to \<open>cbs\<close>. The only other outcome of
  \<open>doStepTimerEvent\<close> is the failed type assertion on an item that holds no step index.
\<close>

theorem sticky_err_short_circuits:
  assumes "err tran = Some e"
  shows "(\<forall>r. doStepTimerEvent steps tran it = Inr r \<longrightarrow> r = (tran, []))
      \<and> (\<forall>i. item_value it = IntValue i \<longrightarrow> doStepTimerEvent steps tran it = Inr (tran, []))
      \<and> doStepUserEvents steps tran it
          = Inr (tran\<lparr>cbs := cbs tran @ (case cb it of Some c \<Rightarrow> [c] | None \<Rightarrow> [])\<rparr>)
      \<and> doUpdateCrowd MustParseBM tran it
          = Inr (tran\<lparr>cbs := cbs tran @ (case cb it of Some c \<Rightarrow> [c] | None \<Rightarrow> [])\<rparr>)"
  using assms
  by (auto simp: doStepTimerEvent_def doStepUserEvents_def doUpdateCrowd_def collectCB_def
      Let_def split: itemValue.splits option.splits)

theorem sticky_err_short_circuits_witness:
  "err failedTran = Some (Err ''execute failed'')
   \<and> doStepTimerEvent Map.empty failedTran demoTimer = Inr (failedTran, [])
   \<and> doStepUserEvents Map.empty failedTran demoUserEvents = Inr (failedTran\<lparr>cbs := [9]\<rparr>)
   \<and> doUpdateCrowd demoParse failedTran demoUpdate = Inr (failedTran\<lparr>cbs := [7]\<rparr>)
   \<and> stepCrowds (failedTran\<lparr>cbs := [7]\<rparr>) = [{1, 3}, {2, 4}]"
proof -
  have h: "err failedTran = Some (Err ''execute failed'')"
    by (simp add: failedTran_def)
  have c: "cbs failedTran = []" by (simp add: failedTran_def demoTran_def)
  from sticky_err_short_circuits [OF h, of Map.empty demoTimer demoParse]
  have t: "doStepTimerEvent Map.empty failedTran demoTimer = Inr (failedTran, [])"
    by (simp add: demoTimer_def)
  from sticky_err_short_circuits [OF h, of Map.empty demoUserEvents demoParse] c
  have u: "doStepUserEvents Map.empty failedTran demoUserEvents = Inr (failedTran\<lparr>cbs := [9]\<rparr>)"
    by (simp add: demoUserEvents_def)
  from sticky_err_short_circuits [OF h, of Map.empty demoUpdate demoParse] c
  have d: "doUpdateCrowd demoParse failedTran demoUpdate = Inr (failedTran\<lparr>cbs := [7]\<rparr>)"
    by (simp add: demoUpdate_def)
  have s: "stepCrowds (failedTran\<lparr>cbs := [7]\<rparr>) = [{1, 3}, {2, 4}]"
    by (simp add: failedTran_def demoTran_def)
  from h t u d s show ?thesis by blast
qed


section \<open>Properties of the engine controller\<close>

subsection \<open>StartInstance\<close>

lemma in_effs_startWithCrowd:
  "startWithCrowd env wflow bm nworkers = (r, effs) \<Longrightarrow>
   (\<forall>b k t. PutBM b k t \<in> set effs \<longrightarrow> b = bm \<and> t = 0)
   \<and> (\<forall>i. StartingInstanceRequest i \<in> set effs \<longrightarrow>
         TotalCrowd i = GetCardinality bm \<and> Snapshot i = wflow \<and> Workers i = nworkers
         \<and> (\<exists>k. PutBM bm k 0 \<in> set effs))"
  by (auto simp: startWithCrowd_def Let_def split: sum.splits prod.splits)

lemma StartInstance_effs_cases:
  assumes "StartInstance env wflow ldr crowdMeta n = (r, effs)"
    and "loadBM env ldr crowdMeta = Inr cnew"
    and "loadInstance env (ID wflow) = Inr prev"
  shows "effs = [] \<or>
     (case prev of
        None \<Rightarrow> startWithCrowd env wflow cnew n = (r, effs)
      | Some old \<Rightarrow> State old = Stopped \<and>
          (\<exists>cprev. loadBM env (Loader old) (LoaderMeta old) = Inr cprev
             \<and> startWithCrowd env wflow (cnew - cprev) n = (r, effs)))"
proof (cases "checkExcution env wflow")
  case (Some e)
  with assms(1) show ?thesis by (simp add: StartInstance_def)
next
  case chk: None
  show ?thesis
  proof (cases prev)
    case None
    with assms chk show ?thesis by (simp add: StartInstance_def)
  next
    case (Some old)
    show ?thesis
    proof (cases "State old = Stopped")
      case False
      with assms chk Some show ?thesis by (simp add: StartInstance_def)
    next
      case True
      show ?thesis
      proof (cases "loadBM env (Loader old) (LoaderMeta old)")
        case (Inl e)
        with assms chk Some True show ?thesis by (simp add: StartInstance_def)
      next
        case (Inr cprev)
        with assms chk Some True show ?thesis by (simp add: StartInstance_def)
      qed
    qed
  qed
qed

lemma StartInstance_effs_prev:
  assumes "StartInstance env wflow ldr crowdMeta n = (r, effs)"
    and "loadBM env ldr crowdMeta = Inr cnew"
    and a: "loadInstance env (ID wflow) = Inr (Some old)" "State old = Stopped"
      "loadBM env (Loader old) (LoaderMeta old) = Inr cprev"
  shows "(\<forall>b k t. PutBM b k t \<in> set effs \<longrightarrow> b = cnew - cprev)
           \<and> (\<forall>i. StartingInstanceRequest i \<in> set effs \<longrightarrow>
                 TotalCrowd i = GetCardinality (cnew - cprev)
                 \<and> (\<exists>k. PutBM (cnew - cprev) k 0 \<in> set effs))"
proof -
  from StartInstance_effs_cases [OF assms(1,2) a(1)] a(3)
  have "effs = [] \<or> startWithCrowd env wflow (cnew - cprev) n = (r, effs)" by auto
  then show ?thesis
  proof
    assume "effs = []"
    then show ?thesis by simp
  next
    assume "startWithCrowd env wflow (cnew - cprev) n = (r, effs)"
    from in_effs_startWithCrowd [OF this] show ?thesis by simp
  qed
qed

lemma StartInstance_effs_first:
  assumes "StartInstance env wflow ldr crowdMeta n = (r, effs)"
    and "loadBM env ldr crowdMeta = Inr cnew"
    and a: "loadInstance env (ID wflow) = Inr None"
  shows "(\<forall>b k t. PutBM b k t \<in> set effs \<longrightarrow> b = cnew)
           \<and> (\<forall>i. StartingInstanceRequest i \<in> set effs \<longrightarrow>
                 TotalCrowd i = GetCardinality cnew
                 \<and> (\<exists>k. PutBM cnew k 0 \<in> set effs))"
proof -
  from StartInstance_effs_cases [OF assms(1,2) a]
  have "effs = [] \<or> startWithCrowd env wflow cnew n = (r, effs)" by simp
  then show ?thesis
  proof
    assume "effs = []"
    then show ?thesis by simp
  next
    assume "startWithCrowd env wflow cnew n = (r, effs)"
    from in_effs_startWithCrowd [OF this] show ?thesis by simp
  qed
qed

lemma StartInstance_effects_bound:
  assumes "StartInstance env wflow ldr crowdMeta n = (r, effs)"
    and "loadBM env ldr crowdMeta = Inr cnew"
  shows "(\<forall>old cprev. loadInstance env (ID wflow) = Inr (Some old) \<and> State old = Stopped
            \<and> loadBM env (Loader old) (LoaderMeta old) = Inr cprev \<longrightarrow>
           (\<forall>b k t. PutBM b k t \<in> set effs \<longrightarrow> b = cnew - cprev)
           \<and> (\<forall>i. StartingInstanceRequest i \<in> set effs \<longrightarrow>
                 TotalCrowd i = GetCardinality (cnew - cprev)
                 \<and> (\<exists>k. PutBM (cnew - cprev) k 0 \<in> set effs)))
       \<and> (loadInstance env (ID wflow) = Inr None \<longrightarrow>
           (\<forall>b k t. PutBM b k t \<in> set effs \<longrightarrow> b = cnew)
           \<and> (\<forall>i. StartingInstanceRequest i \<in> set effs \<longrightarrow>
                 TotalCrowd i = GetCardinality cnew
                 \<and> (\<exists>k. PutBM cnew k 0 \<in> set effs)))"
proof (rule conjI)
  show "\<forall>old cprev. loadInstance env (ID wflow) = Inr (Some old) \<and> State old = Stopped
            \<and> loadBM env (Loader old) (LoaderMeta old) = Inr cprev \<longrightarrow>
           (\<forall>b k t. PutBM b k t \<in> set effs \<longrightarrow> b = cnew - cprev)
           \<and> (\<forall>i. StartingInstanceRequest i \<in> set effs \<longrightarrow>
                 TotalCrowd i = GetCardinality (cnew - cprev)
                 \<and> (\<exists>k. PutBM (cnew - cprev) k 0 \<in> set effs))"
  proof (intro allI impI, elim conjE)
    fix old cprev
    assume "loadInstance env (ID wflow) = Inr (Some old)" "State old = Stopped"
      "loadBM env (Loader old) (LoaderMeta old) = Inr cprev"
    then show "(\<forall>b k t. PutBM b k t \<in> set effs \<longrightarrow> b = cnew - cprev)
           \<and> (\<forall>i. StartingInstanceRequest i \<in> set effs \<longrightarrow>
                 TotalCrowd i = GetCardinality (cnew - cprev)
                 \<and> (\<exists>k. PutBM (cnew - cprev) k 0 \<in> set effs))"
      by (rule StartInstance_effs_prev [OF assms])
  qed
next
  show "loadInstance env (ID wflow) = Inr None \<longrightarrow>
           (\<forall>b k t. PutBM b k t \<in> set effs \<longrightarrow> b = cnew)
           \<and> (\<forall>i. StartingInstanceRequest i \<in> set effs \<longrightarrow>
                 TotalCrowd i = GetCardinality cnew
                 \<and> (\<exists>k. PutBM cnew k 0 \<in> set effs))"
    by (intro impI, rule StartInstance_effs_first [OF assms])
qed

text \<open>
  C3: when the workflow passes \<open>checkExcution\<close>, the requested crowd loads as \<open>cnew\<close> and
  \<open>AllocID\<close> gives the id of the new instance, \<open>StartInstance\<close> does exactly this. If the
  previous instance exists, is \<open>Stopped\<close> and its loader bitmap loads as \<open>cprev\<close>, the
  bitmap handed to \<open>putBM\<close> is \<open>cnew - cprev\<close>; once \<open>putBM\<close> has persisted it, the
  \<open>Starting\<close> command is submitted with an instance whose \<open>TotalCrowd\<close> is the cardinality
  of \<open>cnew - cprev\<close>, and the call returns what the command returns. If there is no
  previous instance, the same holds with \<open>cnew\<close> unchanged in place of \<open>cnew - cprev\<close>.
  Nothing else is persisted or submitted.
\<close>

theorem StartInstance_effective_crowd:
  assumes "checkExcution env wflow = None"
    and "loadBM env ldr crowdMeta = Inr cnew"
    and "AllocID env = Inr newID"
  shows "(\<forall>old cprev. loadInstance env (ID wflow) = Inr (Some old) \<and> State old = Stopped
            \<and> loadBM env (Loader old) (LoaderMeta old) = Inr cprev \<longrightarrow>
           StartInstance env wflow ldr crowdMeta n =
             (case putBM env (cnew - cprev) (WorkflowCrowdShardKey env (ID wflow) newID 0) 0 of
                Inl e \<Rightarrow>
                  (Some e, [PutBM (cnew - cprev) (WorkflowCrowdShardKey env (ID wflow) newID 0) 0])
              | Inr (l, m) \<Rightarrow>
                  (ExecCommand env
                     \<lparr>Snapshot = wflow, instInstanceID = newID, Loader = l, LoaderMeta = m,
                      TotalCrowd = GetCardinality (cnew - cprev), Workers = n, State = Starting\<rparr>,
                   [PutBM (cnew - cprev) (WorkflowCrowdShardKey env (ID wflow) newID 0) 0,
                    StartingInstanceRequest
                      \<lparr>Snapshot = wflow, instInstanceID = newID, Loader = l, LoaderMeta = m,
                       TotalCrowd = GetCardinality (cnew - cprev), Workers = n,
                       State = Starting\<rparr>])))
       \<and> (loadInstance env (ID wflow) = Inr None \<longrightarrow>
           StartInstance env wflow ldr crowdMeta n =
             (case putBM env cnew (WorkflowCrowdShardKey env (ID wflow) newID 0) 0 of
                Inl e \<Rightarrow> (Some e, [PutBM cnew (WorkflowCrowdShardKey env (ID wflow) newID 0) 0])
              | Inr (l, m) \<Rightarrow>
                  (ExecCommand env
                     \<lparr>Snapshot = wflow, instInstanceID = newID, Loader = l, LoaderMeta = m,
                      TotalCrowd = GetCardinality cnew, Workers = n, State = Starting\<rparr>,
                   [PutBM cnew (WorkflowCrowdShardKey env (ID wflow) newID 0) 0,
                    StartingInstanceRequest
                      \<lparr>Snapshot = wflow, instInstanceID = newID, Loader = l, LoaderMeta = m,
                       TotalCrowd = GetCardinality cnew, Workers = n, State = Starting\<rparr>])))"
proof (rule conjI)
  show "\<forall>old cprev. loadInstance env (ID wflow) = Inr (Some old) \<and> State old = Stopped
            \<and> loadBM env (Loader old) (LoaderMeta old) = Inr cprev \<longrightarrow>
           StartInstance env wflow ldr crowdMeta n =
             (case putBM env (cnew - cprev) (WorkflowCrowdShardKey env (ID wflow) newID 0) 0 of
                Inl e \<Rightarrow>
                  (Some e, [PutBM (cnew - cprev) (WorkflowCrowdShardKey env (ID wflow) newID 0) 0])
              | Inr (l, m) \<Rightarrow>
                  (ExecCommand env
                     \<lparr>Snapshot = wflow, instInstanceID = newID, Loader = l, LoaderMeta = m,
                      TotalCrowd = GetCardinality (cnew - cprev), Workers = n, State = Starting\<rparr>,
                   [PutBM (cnew - cprev) (WorkflowCrowdShardKey env (ID wflow) newID 0) 0,
                    StartingInstanceRequest
                      \<lparr>Snapshot = wflow, instInstanceID = newID, Loader = l, LoaderMeta = m,
                       TotalCrowd = GetCardinality (cnew - cprev), Workers = n,
                       State = Starting\<rparr>]))"
    using assms
    by (simp add: StartInstance_def startWithCrowd_def Let_def split: sum.splits prod.splits)
next
  show "loadInstance env (ID wflow) = Inr None \<longrightarrow>
           StartInstance env wflow ldr crowdMeta n =
             (case putBM env cnew (WorkflowCrowdShardKey env (ID wflow) newID 0) 0 of
                Inl e \<Rightarrow> (Some e, [PutBM cnew (WorkflowCrowdShardKey env (ID wflow) newID 0) 0])
              | Inr (l, m) \<Rightarrow>
                  (ExecCommand env
                     \<lparr>Snapshot = wflow, instInstanceID = newID, Loader = l, LoaderMeta = m,
                      TotalCrowd = GetCardinality cnew, Workers = n, State = Starting\<rparr>,
                   [PutBM cnew (WorkflowCrowdShardKey env (ID wflow) newID 0) 0,
                    StartingInstanceRequest
                      \<lparr>Snapshot = wflow, instInstanceID = newID, Loader = l, LoaderMeta = m,
                       TotalCrowd = GetCardinality cnew, Workers = n, State = Starting\<rparr>]))"
    using assms
    by (simp add: StartInstance_def startWithCrowd_def Let_def split: sum.splits prod.splits)
qed

lemma demo_loadInstance: "loadInstance (demoEnv (Some c)) (ID demoWorkflow) = Inr (Some c)"
  by (simp add: loadInstance_def demoEnv_def demoWorkflow_def)

lemma demo_loadInstance_first: "loadInstance (demoEnv None) (ID demoWorkflow) = Inr None"
  by (simp add: loadInstance_def demoEnv_def demoWorkflow_def)

lemma demo_loadBM: "loadBM (demoEnv c) RawLoader [1, 2, 5] = Inr {1, 2, 5}"
  "loadBM (demoEnv c) (Loader stoppedInstance) (LoaderMeta stoppedInstance) = Inr {1, 2}"
  by (simp_all add: demoEnv_def stoppedInstance_def)

lemma demo_env:
  "checkExcution (demoEnv c) demoWorkflow = None" "AllocID (demoEnv c) = Inr 3"
  "WorkflowCrowdShardKey (demoEnv c) (ID demoWorkflow) 3 0 = [1, 3, 0]"
  "putBM (demoEnv c) bm k t = Inr (KVShardLoader, k)" "ExecCommand (demoEnv c) i = None"
  by (simp_all add: demoEnv_def demoWorkflow_def demoStepA_def)

lemma demo_crowds:
  "({1, 2, 5} :: bitmap) - {1, 2} = {5}" "GetCardinality ({5} :: bitmap) = 1"
  "GetCardinality ({1, 2, 5} :: bitmap) = 3"
  by (simp_all add: GetCardinality_def insert_Diff_if)

text \<open>
  Workflow 1 ran on the crowd \<open>{1, 2}\<close> and is stopped; started again on \<open>{1, 2, 5}\<close> its
  new instance holds user 5 alone. Started on \<open>{1, 2, 5}\<close> with no instance in the store,
  its instance holds all three users.
\<close>

theorem StartInstance_effective_crowd_witness:
  "checkExcution (demoEnv (Some stoppedInstance)) demoWorkflow = None
   \<and> loadBM (demoEnv (Some stoppedInstance)) RawLoader [1, 2, 5] = Inr {1, 2, 5}
   \<and> AllocID (demoEnv (Some stoppedInstance)) = Inr 3
   \<and> loadInstance (demoEnv (Some stoppedInstance)) (ID demoWorkflow) = Inr (Some stoppedInstance)
   \<and> State stoppedInstance = Stopped
   \<and> loadBM (demoEnv (Some stoppedInstance)) (Loader stoppedInstance) (LoaderMeta stoppedInstance)
       = Inr {1, 2}
   \<and> StartInstance (demoEnv (Some stoppedInstance)) demoWorkflow RawLoader [1, 2, 5] 1
       = (None, [PutBM {5} [1, 3, 0] 0, StartingInstanceRequest (demoInstance 1)])
   \<and> checkExcution (demoEnv None) demoWorkflow = None
   \<and> loadBM (demoEnv None) RawLoader [1, 2, 5] = Inr {1, 2, 5}
   \<and> AllocID (demoEnv None) = Inr 3
   \<and> loadInstance (demoEnv None) (ID demoWorkflow) = Inr None
   \<and> StartInstance (demoEnv None) demoWorkflow RawLoader [1, 2, 5] 1
       = (None, [PutBM {1, 2, 5} [1, 3, 0] 0, StartingInstanceRequest (demoInstance 3)])"
proof -
  have st: "State stoppedInstance = Stopped" by (simp add: stoppedInstance_def)
  note hyp = demo_loadInstance [of stoppedInstance] st demo_loadBM(2) [of "Some stoppedInstance"]
  note again = StartInstance_effective_crowd
      [OF demo_env(1) demo_loadBM(1) demo_env(2), of "Some stoppedInstance" 1,
       THEN conjunct1, rule_format, of stoppedInstance "{1, 2}",
       OF conjI [OF hyp(1) conjI [OF hyp(2) hyp(3)]]]
  note first = StartInstance_effective_crowd
      [OF demo_env(1) demo_loadBM(1) demo_env(2), of None 1,
       THEN conjunct2, rule_format, OF demo_loadInstance_first]
  have r: "StartInstance (demoEnv (Some stoppedInstance)) demoWorkflow RawLoader [1, 2, 5] 1
       = (None, [PutBM {5} [1, 3, 0] 0, StartingInstanceRequest (demoInstance 1)])"
    by (subst again) (simp add: demo_env demo_crowds demoInstance_def)
  have f: "StartInstance (demoEnv None) demoWorkflow RawLoader [1, 2, 5] 1
       = (None, [PutBM {1, 2, 5} [1, 3, 0] 0, StartingInstanceRequest (demoInstance 3)])"
    by (subst first) (simp add: demo_env demo_crowds demoInstance_def)
  show ?thesis
    by (intro conjI demo_env(1,2) demo_loadBM hyp r demo_loadInstance_first f)
qed

text \<open>
  C7 (as amended): when the current instance of the workflow exists and is not \<open>Stopped\<close>,
  \<open>StartInstance\<close> makes no effect at all (no bitmap is persisted, no command submitted);
  it returns \<open>nil\<close> when the workflow passes \<open>checkExcution\<close> and the requested crowd
  loads, and otherwise the error of the check or of the load, both of which come before
  the look at the current instance.
\<close>

theorem StartInstance_not_stopped:
  assumes "loadInstance env (ID wflow) = Inr (Some old)" and "State old \<noteq> Stopped"
  shows "StartInstance env wflow ldr crowdMeta nworkers =
           ((case checkExcution env wflow of
               Some e \<Rightarrow> Some e
             | None \<Rightarrow> (case loadBM env ldr crowdMeta of Inl e \<Rightarrow> Some e | Inr bm \<Rightarrow> None)), [])"
  using assms by (simp add: StartInstance_def split: option.splits sum.splits)


theorem StartInstance_not_stopped_witness:
  "loadInstance (demoEnv (Some runningInstance)) (ID demoWorkflow) = Inr (Some runningInstance)
   \<and> State runningInstance \<noteq> Stopped
   \<and> StartInstance (demoEnv (Some runningInstance)) demoWorkflow RawLoader [1, 2, 5] 1 = (None, [])"
proof -
  have st: "State runningInstance \<noteq> Stopped" by (simp add: runningInstance_def)
  have chk: "checkExcution (demoEnv (Some runningInstance)) demoWorkflow = None"
    by (simp add: demoEnv_def demoWorkflow_def)
  from StartInstance_not_stopped [OF demo_loadInstance st, of RawLoader "[1, 2, 5]" 1]
  have "StartInstance (demoEnv (Some runningInstance)) demoWorkflow RawLoader [1, 2, 5] 1
          = (None, [])"
    by (simp add: chk demo_loadBM)
  with demo_loadInstance [of runningInstance] st show ?thesis by simp
qed

text \<open>
  C7 as stated promises a return without error for every such call. A workflow without
  steps fails the check, and the call returns that error although a running instance
  exists.
\<close>

theorem StartInstance_not_stopped_counterexample:
  "loadInstance (demoEnv (Some runningInstance)) (ID (demoWorkflow\<lparr>Steps := []\<rparr>))
     = Inr (Some runningInstance)
   \<and> State runningInstance \<noteq> Stopped
   \<and> StartInstance (demoEnv (Some runningInstance)) (demoWorkflow\<lparr>Steps := []\<rparr>) RawLoader
        [1, 2, 5] 1 = (Some (Err ''workflow has no steps''), [])"
  by (simp add: StartInstance_def loadInstance_def demoEnv_def demoWorkflow_def
      runningInstance_def)

subsection \<open>The worker registry\<close>

lemma digitChar_value: "d < 10 \<Longrightarrow> (of_char (digitChar d) :: nat) = 48 + d"
proof -
  assume "d < 10"
  then have "d \<in> {0, 1, 2, 3, 4, 5, 6, 7, 8, 9}" by auto
  then show ?thesis by (auto simp: digitChar_def)
qed

lemma digitChar_not_slash: "d < 10 \<Longrightarrow> digitChar d \<noteq> CHR ''/''"
proof -
  assume "d < 10"
  then have "d \<in> {0, 1, 2, 3, 4, 5, 6, 7, 8, 9}" by auto
  then show ?thesis by (auto simp: digitChar_def)
qed

lemma undecimal_decimal: "undecimal (decimal n) = n"
proof (induction n rule: decimal.induct)
  case (1 n)
  show ?case
  proof (cases "n < 10")
    case True
    then show ?thesis
      by (subst decimal.simps) (simp add: undecimal_def digitChar_value)
  next
    case False
    have m: "n mod 10 < 10" by simp
    from False 1 have ih: "undecimal (decimal (n div 10)) = n div 10" by simp
    have "undecimal (decimal n) = 10 * undecimal (decimal (n div 10)) + n mod 10"
      using False by (subst decimal.simps) (simp add: undecimal_def digitChar_value [OF m])
    with ih show ?thesis by simp
  qed
qed

lemma decimal_inject: "decimal m = decimal n \<Longrightarrow> m = n"
  by (metis undecimal_decimal)

lemma decimal_no_slash: "CHR ''/'' \<notin> set (decimal n)"
proof (induction n rule: decimal.induct)
  case (1 n)
  show ?case
  proof (cases "n < 10")
    case True
    then show ?thesis
      using digitChar_not_slash [of n] by (subst decimal.simps) auto
  next
    case False
    have m: "n mod 10 < 10" by simp
    from False 1 have "CHR ''/'' \<notin> set (decimal (n div 10))" by simp
    then show ?thesis
      using False digitChar_not_slash [OF m] by (subst decimal.simps) auto
  qed
qed

lemma split_at_separator:
  "c \<notin> set xs \<Longrightarrow> c \<notin> set xs' \<Longrightarrow> xs @ c # ys = xs' @ c # ys' \<Longrightarrow> xs = xs' \<and> ys = ys'"
proof (induction xs arbitrary: xs')
  case Nil
  then show ?case by (cases xs') auto
next
  case (Cons x xs)
  then show ?case by (cases xs') auto
qed

lemma workerKey_inject:
  "workerKey st = workerKey st' \<longleftrightarrow> WorkflowID st = WorkflowID st' \<and> Index st = Index st'"
proof
  assume "workerKey st = workerKey st'"
  then have "decimal (unat (WorkflowID st)) @ CHR ''/'' # decimal (unat (Index st))
           = decimal (unat (WorkflowID st')) @ CHR ''/'' # decimal (unat (Index st'))"
    by (simp add: workerKey_def)
  from split_at_separator [OF decimal_no_slash decimal_no_slash this]
  have "unat (WorkflowID st) = unat (WorkflowID st')" "unat (Index st) = unat (Index st')"
    by (auto dest: decimal_inject)
  then show "WorkflowID st = WorkflowID st' \<and> Index st = Index st'"
    by (simp add: word_unat_eq_iff)
next
  assume "WorkflowID st = WorkflowID st' \<and> Index st = Index st'"
  then show "workerKey st = workerKey st'" by (simp add: workerKey_def)
qed

lemma newStateWorkerLoop_result:
  assumes "newStateWorkerLoop mk n k st = Some wk"
  shows "\<exists>m. mk m k st = Inr wk"
proof (rule newStateWorkerLoop.raw_induct
    [where P = "\<lambda>mk n k st wk. \<exists>m. mk m k st = Inr wk", OF _ assms])
  fix loop mk' n' k' st' wk'
  assume ih: "\<And>f a b c y. loop f a b c = Some y \<Longrightarrow> \<exists>m. f m b c = Inr y"
    and step: "(case mk' n' k' st' of
                  Inl e \<Rightarrow> loop mk' (Suc n') k' st'
                | Inr w \<Rightarrow> Some w) = Some wk'"
  show "\<exists>m. mk' m k' st' = Inr wk'"
  proof (cases "mk' n' k' st'")
    case (Inl e)
    with step have "loop mk' (Suc n') k' st' = Some wk'" by simp
    from ih [OF this] show ?thesis .
  next
    case (Inr w)
    with step have "w = wk'" by simp
    with Inr show ?thesis by blast
  qed
qed

lemma demoLoop: "newStateWorkerLoop demoNewStateWorker 0 k st
   = Some \<lparr>key = k, state = st, directSteps = Map.empty, isDirectStep = (\<lambda>s. False)\<rparr>"
  apply (subst newStateWorkerLoop.simps)
  apply (subst newStateWorkerLoop.simps)
  apply (simp add: demoNewStateWorker_def)
  done

lemma doStartInstanceStateEvent_registers:
  assumes "doStartInstanceStateEvent mk now eng st = Some (Inr eng')"
    and "\<forall>n k wk. mk n k st = Inr wk \<longrightarrow> key wk = k"
  shows "eng' = eng \<or> (\<exists>wk. key wk = workerKey st \<and> workers eng' = (workers eng)(workerKey st \<mapsto> wk))"
proof (cases "newStateWorkerLoop mk 0 (workerKey st) st")
  case None
  with assms(1) show ?thesis
    by (auto simp: doStartInstanceStateEvent_def Let_def split: if_splits)
next
  case (Some wk)
  from newStateWorkerLoop_result [OF Some] assms(2) have "key wk = workerKey st" by blast
  with Some assms(1) show ?thesis
    by (auto simp: doStartInstanceStateEvent_def Let_def split: if_splits)
qed

text \<open>
  C9 (as amended): a state worker is registered under the key
  \<open>"{WorkflowID}/{Index}"\<close>: the key names the workflow, not the instance, and two worker
  states have the same key exactly when they agree on \<open>WorkflowID\<close> and \<open>Index\<close>. A
  placement event whose key is in the registry ends the process with the fatal message
  \<open>BUG: start a exists state worker\<close>; an event that returns either leaves the engine as
  it is (the stop time has passed) or stores the new worker under that key.
\<close>

theorem worker_registry_key:
  "workerKey st = decimal (unat (WorkflowID st)) @ ''/'' @ decimal (unat (Index st))
   \<and> (workerKey st = workerKey st' \<longleftrightarrow> WorkflowID st = WorkflowID st' \<and> Index st = Index st')
   \<and> (workers eng (workerKey st) \<noteq> None \<longrightarrow>
        doStartInstanceStateEvent mk now eng st
          = Some (Inl (Fatal ''BUG: start a exists state worker'')))
   \<and> (\<forall>eng'. doStartInstanceStateEvent mk now eng st = Some (Inr eng')
          \<and> (\<forall>n k wk. mk n k st = Inr wk \<longrightarrow> key wk = k) \<longrightarrow>
        eng' = eng \<or> (\<exists>wk. key wk = workerKey st
                         \<and> workers eng' = (workers eng)(workerKey st \<mapsto> wk)))"
proof (intro conjI)
  show "workerKey st = decimal (unat (WorkflowID st)) @ ''/'' @ decimal (unat (Index st))"
    by (simp add: workerKey_def)
  show "workerKey st = workerKey st' \<longleftrightarrow> WorkflowID st = WorkflowID st' \<and> Index st = Index st'"
    by (rule workerKey_inject)
  show "workers eng (workerKey st) \<noteq> None \<longrightarrow>
        doStartInstanceStateEvent mk now eng st
          = Some (Inl (Fatal ''BUG: start a exists state worker''))"
    by (simp add: doStartInstanceStateEvent_def)
  show "\<forall>eng'. doStartInstanceStateEvent mk now eng st = Some (Inr eng')
          \<and> (\<forall>n k wk. mk n k st = Inr wk \<longrightarrow> key wk = k) \<longrightarrow>
        eng' = eng \<or> (\<exists>wk. key wk = workerKey st
                         \<and> workers eng' = (workers eng)(workerKey st \<mapsto> wk))"
    using doStartInstanceStateEvent_registers by blast
qed



lemma demo_workerKey: "workerKey (state demoWorker) = ''1/0''"
  by (simp add: workerKey_def demoWorker_def decimal.simps digitChar_def)

lemma demo_placement_twice:
  "doStartInstanceStateEvent demoNewStateWorker 100 demoEngine (state demoWorker)
     = Some (Inl (Fatal ''BUG: start a exists state worker''))"
  by (simp add: doStartInstanceStateEvent_def demo_workerKey demoEngine_def)

lemma demo_placement:
  "doStartInstanceStateEvent demoNewStateWorker 100 emptyEngine (state demoWorker)
     = Some (Inr demoEngine)"
  by (simp add: doStartInstanceStateEvent_def demo_workerKey demoLoop emptyEngine_def
      demoEngine_def) (simp add: demoWorker_def)

theorem worker_registry_key_witness:
  "workers demoEngine (workerKey (state demoWorker)) \<noteq> None
   \<and> doStartInstanceStateEvent demoNewStateWorker 100 demoEngine (state demoWorker)
       = Some (Inl (Fatal ''BUG: start a exists state worker''))
   \<and> doStartInstanceStateEvent demoNewStateWorker 100 emptyEngine (state demoWorker)
       = Some (Inr demoEngine)
   \<and> (demoEngine = emptyEngine
        \<or> (\<exists>wk. key wk = workerKey (state demoWorker)
              \<and> workers demoEngine = (workers emptyEngine)(workerKey (state demoWorker) \<mapsto> wk)))"
proof -
  have present: "workers demoEngine (workerKey (state demoWorker)) \<noteq> None"
    by (simp add: demo_workerKey demoEngine_def)
  have keyed: "\<forall>n k wk. demoNewStateWorker n k (state demoWorker) = Inr wk \<longrightarrow> key wk = k"
    by (auto simp: demoNewStateWorker_def split: if_splits)
  note t = worker_registry_key [of "state demoWorker" "state demoWorker" _ demoNewStateWorker 100]
  from t [of demoEngine] present
  have fatal: "doStartInstanceStateEvent demoNewStateWorker 100 demoEngine (state demoWorker)
       = Some (Inl (Fatal ''BUG: start a exists state worker''))"
    by simp
  have stored: "demoEngine = emptyEngine
        \<or> (\<exists>wk. key wk = workerKey (state demoWorker)
              \<and> workers demoEngine = (workers emptyEngine)(workerKey (state demoWorker) \<mapsto> wk))"
    by (rule t [of emptyEngine, THEN conjunct2, THEN conjunct2, THEN conjunct2, rule_format,
          OF conjI [OF demo_placement keyed]])
  show ?thesis
    by (intro conjI present fatal demo_placement stored)
qed

text \<open>
  C9 as stated names the instance in the key. The worker state of the demo shard belongs
  to workflow 1 and instance 2: its key is \<open>1/0\<close>, not \<open>2/0\<close>.
\<close>

theorem worker_registry_key_counterexample:
  "workerKey (state demoWorker) = ''1/0''
   \<and> decimal (unat (InstanceID (state demoWorker))) @ ''/''
       @ decimal (unat (Index (state demoWorker))) = ''2/0''"
  by (simp add: workerKey_def demoWorker_def decimal.simps digitChar_def)

section \<open>Properties of the storage batches\<close>

subsection \<open>Add\<close>

lemma Add_shard:
  "Add b shd req = Inr (ok, resp, b') \<Longrightarrow>
   shard b' = shd \<and> (shard b = 0 \<or> shard b = shd)"
  by (auto simp: Add_def Let_def split: if_splits option.splits sum.splits)

lemma addRequests_single_shard:
  "addRequests b rs = Inr b' \<Longrightarrow> \<forall>r \<in> set rs. fst r \<noteq> 0 \<Longrightarrow>
   (\<forall>r \<in> set rs. fst r = shard b') \<and> (shard b \<noteq> 0 \<longrightarrow> shard b' = shard b)"
proof (induction rs arbitrary: b)
  case Nil
  then show ?case by simp
next
  case (Cons r rs)
  from Cons.prems(1) obtain ok resp b1 where a: "Add b (fst r) (snd r) = Inr (ok, resp, b1)"
    and rest: "addRequests b1 rs = Inr b'"
    by (auto split: sum.splits)
  from Add_shard [OF a] have s1: "shard b1 = fst r" "shard b = 0 \<or> shard b = fst r" by auto
  from Cons.prems(2) have nz: "fst r \<noteq> 0" "\<forall>r \<in> set rs. fst r \<noteq> 0" by auto
  from Cons.IH [OF rest nz(2)] s1(1) nz(1)
  have ih: "\<forall>r \<in> set rs. fst r = shard b'" "shard b' = fst r" by auto
  with s1 show ?case by auto
qed

text \<open>
  C10 (as amended): \<open>Add\<close> ends the process with the fatal message \<open>BUG: diffent shard
  opts in a batch\<close> when the request's shard differs from the nonzero shard recorded in the
  batch. A request whose custom type no batch type supports is answered with \<open>false\<close> and
  no response; it buffers nothing, but the batch records its shard all the same. A batch
  that starts with no shard recorded and accepts a run of requests with nonzero shards has
  received requests of one shard only, the one it records.
\<close>

theorem Add_single_shard:
  "(shard b \<noteq> 0 \<and> shard b \<noteq> shd \<longrightarrow>
      Add b shd req = Inl (Fatal ''BUG: diffent shard opts in a batch''))
   \<and> ((shard b = 0 \<or> shard b = shd) \<and> fn b (CustemType req) = None \<longrightarrow>
      Add b shd req = Inr (False, None, b\<lparr>shard := shd\<rparr>))
   \<and> (\<forall>b'. shard b = 0 \<and> addRequests b rs = Inr b' \<and> (\<forall>r \<in> set rs. fst r \<noteq> 0) \<longrightarrow>
         (\<forall>r \<in> set rs. fst r = shard b'))"
proof (intro conjI)
  show "shard b \<noteq> 0 \<and> shard b \<noteq> shd \<longrightarrow>
      Add b shd req = Inl (Fatal ''BUG: diffent shard opts in a batch'')"
    by (simp add: Add_def)
  show "(shard b = 0 \<or> shard b = shd) \<and> fn b (CustemType req) = None \<longrightarrow>
      Add b shd req = Inr (False, None, b\<lparr>shard := shd\<rparr>)"
    by (auto simp: Add_def)
  show "\<forall>b'. shard b = 0 \<and> addRequests b rs = Inr b' \<and> (\<forall>r \<in> set rs. fst r \<noteq> 0) \<longrightarrow>
         (\<forall>r \<in> set rs. fst r = shard b')"
    using addRequests_single_shard by blast
qed

lemma demoBatch_fn:
  "fn demoBatch QueueAdd = Some 0" "fn demoBatch (OtherType n) = None" "shard demoBatch = 0"
  by (simp_all add: demoBatch_def newBatch_def queueBatchType_def)

lemma demo_Add:
  "Add demoBatch 7 demoAdd = Inr (True, Some \<lparr>Value = [0, 0, 0, 0, 0, 0, 0, 2]\<rparr>, demoFilled)"
  by (simp add: Add_def demoBatch_fn demoAdd_def demoBatch_def newBatch_def queueBatchType_def
      queueBatch_addReq_def queueBatch_add_def loadOffsets_def demoQueueEnv_def Let_def
      newQueueBatch_def Uint64ToBytes_def upt_rec demoFilled_def)

lemma demo_Add_other:
  "Add demoFilled 7 demoOther = Inr (False, None, demoFilled)"
  by (simp add: Add_def demoFilled_def demoBatch_fn demoOther_def)

lemma demo_addRequests:
  "addRequests demoBatch [(7, demoAdd), (7, demoOther)] = Inr demoFilled"
  by (simp add: demo_Add demo_Add_other)

theorem Add_single_shard_witness:
  "shard demoFilled \<noteq> 0 \<and> shard demoFilled \<noteq> 8
   \<and> Add demoFilled 8 demoAdd = Inl (Fatal ''BUG: diffent shard opts in a batch'')
   \<and> shard demoBatch = 0 \<and> fn demoBatch (CustemType demoOther) = None
   \<and> Add demoBatch 7 demoOther = Inr (False, None, demoBatch\<lparr>shard := 7\<rparr>)
   \<and> addRequests demoBatch [(7, demoAdd), (7, demoOther)] = Inr demoFilled
   \<and> fst (7 :: 64 word, demoAdd) = shard demoFilled
   \<and> fst (7 :: 64 word, demoOther) = shard demoFilled"
proof -
  have h1: "shard demoFilled \<noteq> 0" "shard demoFilled \<noteq> 8" by (simp_all add: demoFilled_def)
  have h2: "fn demoBatch (CustemType demoOther) = None"
    by (simp add: demoOther_def demoBatch_fn)
  have h3: "\<forall>r \<in> set [(7, demoAdd), (7, demoOther)]. fst r \<noteq> (0 :: 64 word)" by simp
  from Add_single_shard [of demoFilled 8 demoAdd "[]"] h1
  have a: "Add demoFilled 8 demoAdd = Inl (Fatal ''BUG: diffent shard opts in a batch'')"
    by simp
  from Add_single_shard [of demoBatch 7 demoOther "[(7, demoAdd), (7, demoOther)]"]
    demoBatch_fn(3) h2
  have b: "Add demoBatch 7 demoOther = Inr (False, None, demoBatch\<lparr>shard := 7\<rparr>)"
    by simp
  from Add_single_shard [of demoBatch 7 demoOther "[(7, demoAdd), (7, demoOther)]"]
    demoBatch_fn(3) demo_addRequests h3
  have c: "\<forall>r \<in> set [(7, demoAdd), (7, demoOther)]. fst r = shard demoFilled"
    by simp
  from c have c1: "fst (7 :: 64 word, demoAdd) = shard demoFilled"
    and c2: "fst (7 :: 64 word, demoOther) = shard demoFilled" by simp_all
  show ?thesis
    by (intro conjI h1 a demoBatch_fn(3) h2 b demo_addRequests c1 c2)
qed

text \<open>
  C10 as stated has the unsupported request leave the batch unchanged. The fresh batch
  records shard 7 after such a request.
\<close>

theorem Add_unsupported_counterexample:
  "fn demoBatch (CustemType demoOther) = None
   \<and> Add demoBatch 7 demoOther = Inr (False, None, demoBatch\<lparr>shard := 7\<rparr>)
   \<and> shard (demoBatch\<lparr>shard := 7\<rparr>) \<noteq> shard demoBatch"
  by (simp add: Add_def demoBatch_fn demoOther_def)

subsection \<open>exec of the queue batch\<close>

lemma demo_committed: "Byte2UInt64 [0, 0, 0, 0, 0, 0, 0, 10, 0, 0, 0, 0, 0, 0, 0, 90] = Some 10"
  by (simp add: Byte2UInt64_def)

lemma demo_lastFetch: "Byte2UInt64 [0, 0, 0, 0, 0, 0, 0, 90] = Some 90"
  by (simp add: Byte2UInt64_def)

lemma exec_never_advances:
  "exec qe now qb = (Inr qb', ops) \<Longrightarrow> removedOffset qb' = removedOffset qb"
  by (auto simp: exec_def writeOffsets_def Let_def split: if_splits sum.splits)

text \<open>
  C5: with more than \<open>countToClean\<close> items between \<open>removedOffset\<close> and \<open>maxOffset\<close>,
  \<open>exec\<close> is to delete the items up to the lowest offset committed by a live consumer and
  to advance \<open>removedOffset\<close> to it. The source does not advance: with 5000 items, none
  removed, and one live consumer that has committed offset 10, \<open>exec\<close> issues the range
  delete from offset 0 to offset 11 and then ends the process in the \<open>log.Fatalf\<close> that
  follows it; \<open>removedOffset\<close> is never written and the write batch is never filled.
\<close>

theorem exec_aborts_on_clean:
  "exec demoQueueEnv 100 demoQueueBatch
     = (Inl (Fatal ''exec queue add batch failed''),
        [RangeDelete [7, 4, 0, 0, 0, 0, 0, 0, 0, 0] [7, 4, 0, 0, 0, 0, 0, 0, 0, 11]])"
  by (simp add: exec_def demoQueueBatch_def demoQueueEnv_def demo_committed demo_lastFetch maxConsumerAlive_def
      word_sless_alt countToClean_def Uint64ToBytes_def upt_rec)


end
